theory Spec2Isabelle
  imports Complex_Main "HOL-Library.AList"
begin

section \<open>The testnet monitor: log-driven topology reconstruction\<close>

text \<open>
  A shallow embedding of \<^verbatim>\<open>testnet/monitor.py\<close>. The three module globals
  \<^verbatim>\<open>nodes\<close>, \<^verbatim>\<open>connections\<close> and \<^verbatim>\<open>messages\<close> become one record that
  every function takes and returns. Python dictionaries keep insertion order and the code
  iterates over \<^verbatim>\<open>nodes.items()\<close>, so both dictionaries are association lists with
  distinct keys. Strings are \<^typ>\<open>string\<close>; the counters are Python integers, hence
  \<^typ>\<open>int\<close>; the times (\<^verbatim>\<open>time.time()\<close>, \<^verbatim>\<open>os.path.getmtime\<close>) are read
  as real numbers.
\<close>

subsection \<open>Strings\<close>

text \<open>\<^verbatim>\<open>s.startswith(p)\<close>, \<^verbatim>\<open>s.endswith(p)\<close> and \<^verbatim>\<open>p in s\<close>.\<close>

fun startswith :: "string \<Rightarrow> string \<Rightarrow> bool" where
  "startswith [] s = True"
| "startswith (p # ps) [] = False"
| "startswith (p # ps) (c # cs) = (p = c \<and> startswith ps cs)"

definition endswith :: "string \<Rightarrow> string \<Rightarrow> bool" where
  "endswith p s = startswith (rev p) (rev s)"

fun contains :: "string \<Rightarrow> string \<Rightarrow> bool" where
  "contains p [] = (p = [])"
| "contains p (c # cs) = (startswith p (c # cs) \<or> contains p cs)"

text \<open>
  \<^verbatim>\<open>s.split(sep)\<close> for a one-character separator: every occurrence splits, empty
  pieces are kept, and the result is never empty.
\<close>

fun split_sep :: "char \<Rightarrow> string \<Rightarrow> string list" where
  "split_sep sep [] = [[]]"
| "split_sep sep (c # cs) =
     (if c = sep then [] # split_sep sep cs
      else (case split_sep sep cs of
              [] \<Rightarrow> [[c]]
            | p # ps \<Rightarrow> (c # p) # ps))"

text \<open>
  The text after the leftmost occurrence of a literal, and the texts on both sides of its
  rightmost occurrence. These are the two searches the regular expressions below need:
  a pattern \<^verbatim>\<open>lit(.*)\<close> under \<^verbatim>\<open>re.search\<close> matches from the leftmost
  \<^verbatim>\<open>lit\<close>, and a greedy \<^verbatim>\<open>(.*)lit(.*)\<close> gives the first group as much as it can,
  so it splits at the rightmost \<^verbatim>\<open>lit\<close>.
\<close>

fun after_first :: "string \<Rightarrow> string \<Rightarrow> string option" where
  "after_first lit [] = (if lit = [] then Some [] else None)"
| "after_first lit (c # cs) =
     (if startswith lit (c # cs) then Some (drop (length lit) (c # cs))
      else after_first lit cs)"

fun split_last :: "string \<Rightarrow> string \<Rightarrow> (string \<times> string) option" where
  "split_last lit [] = (if lit = [] then Some ([], []) else None)"
| "split_last lit (c # cs) =
     (case split_last lit cs of
        Some (b, a) \<Rightarrow> Some (c # b, a)
      | None \<Rightarrow> (if startswith lit (c # cs) then Some ([], drop (length lit) (c # cs))
                 else None))"

subsection \<open>The line grammars\<close>

text \<open>
  \<^verbatim>\<open>for line in f\<close> yields each line with its line feed, and \<^verbatim>\<open>.\<close> matches
  every character but the line feed, so a match lies inside the part of the line before
  it. Each expression is modelled by the function that \<^verbatim>\<open>search\<close> followed by
  \<^verbatim>\<open>group(1)\<close> (and \<^verbatim>\<open>group(2)\<close>) computes: \<^const>\<open>None\<close> when there is no match.
\<close>

definition body :: "string \<Rightarrow> string" where
  "body line = takeWhile (\<lambda>c. c \<noteq> CHR 0x0A) line"

text \<open>\<^verbatim>\<open>Node initialized with overlay address: (.*)\<close>\<close>

definition NODE_INITIALIZED_RE :: "string \<Rightarrow> string option" where
  "NODE_INITIALIZED_RE line = after_first ''Node initialized with overlay address: '' (body line)"

text \<open>\<^verbatim>\<open>Connected to peer: (.*)\<close>\<close>

definition PEER_CONNECTED_RE :: "string \<Rightarrow> string option" where
  "PEER_CONNECTED_RE line = after_first ''Connected to peer: '' (body line)"

text \<open>\<^verbatim>\<open>Created tunnel to (.*) using (.*)\<close>\<close>

definition TUNNEL_CREATED_RE :: "string \<Rightarrow> (string \<times> string) option" where
  "TUNNEL_CREATED_RE line =
     (case after_first ''Created tunnel to '' (body line) of
        None \<Rightarrow> None
      | Some r \<Rightarrow> split_last '' using '' r)"

text \<open>
  \<^verbatim>\<open>Sending .* to (.*): (.*)\<close>. The first \<^verbatim>\<open>.*\<close> is greedy: it ends at the
  rightmost \<^verbatim>\<open> to \<close> that still has a \<^verbatim>\<open>: \<close> after it, and the first group then
  runs to the rightmost \<^verbatim>\<open>: \<close>.
\<close>

fun sending_groups :: "string \<Rightarrow> (string \<times> string) option" where
  "sending_groups [] = None"
| "sending_groups (c # cs) =
     (case sending_groups cs of
        Some g \<Rightarrow> Some g
      | None \<Rightarrow> (if startswith '' to '' (c # cs) then split_last '': '' (drop 4 (c # cs))
                 else None))"

definition MESSAGE_SENT_RE :: "string \<Rightarrow> (string \<times> string) option" where
  "MESSAGE_SENT_RE line =
     (case after_first ''Sending '' (body line) of
        None \<Rightarrow> None
      | Some r \<Rightarrow> sending_groups r)"

text \<open>\<^verbatim>\<open>Received message from (.*): (.*)\<close>\<close>

definition MESSAGE_RECEIVED_RE :: "string \<Rightarrow> (string \<times> string) option" where
  "MESSAGE_RECEIVED_RE line =
     (case after_first ''Received message from '' (body line) of
        None \<Rightarrow> None
      | Some r \<Rightarrow> split_last '': '' r)"

text \<open>
  The timestamp prefix: \<^verbatim>\<open>re.match(r"\[(.*?)\]", line)\<close> needs the line to open with
  a bracket that is closed before the line ends; \<^verbatim>\<open>group(1).split()[0]\<close> is the first
  blank-separated word between the brackets, and an IndexError (no word) is caught.
  \<^const>\<open>None\<close> is the case in which \<^verbatim>\<open>strptime\<close> is not reached. The blanks are
  the characters below 256 at which \<^verbatim>\<open>str.split()\<close> splits: the ASCII blanks and
  separators, the next-line character 0x85 and the no-break space 0xA0.
\<close>

definition isspace :: "char \<Rightarrow> bool" where
  "isspace c = (c \<in> set [CHR 0x09, CHR 0x0A, CHR 0x0B, CHR 0x0C, CHR 0x0D,
                         CHR 0x1C, CHR 0x1D, CHR 0x1E, CHR 0x1F, CHR 0x20,
                         CHR 0x85, CHR 0xA0])"

definition timestamp_str :: "string \<Rightarrow> string option" where
  "timestamp_str line =
     (case line of
        [] \<Rightarrow> None
      | c # r \<Rightarrow>
          (if c = CHR ''['' \<and> CHR '']'' \<in> set (body r)
           then (let w = takeWhile (\<lambda>c. \<not> isspace c)
                           (dropWhile isspace (takeWhile (\<lambda>c. c \<noteq> CHR '']'') r))
                 in if w = [] then None else Some w)
           else None))"

subsection \<open>The environment of a pass\<close>

text \<open>
  What a pass reads from outside the store: the wall clock and the date parser.
  \<^verbatim>\<open>time.time()\<close> is read several times during a pass; the model takes one reading
  for the whole pass. \<^verbatim>\<open>datetime.strptime(s, "%Y-%m-%d")\<close> is a library function: it
  is a parameter, \<^const>\<open>None\<close> where it raises ValueError (which the code catches), and
  \<^typ>\<open>'d\<close> is the type of the dates it returns.
\<close>

record 'd env =
  time_now :: real
  strptime :: "string \<Rightarrow> 'd option"

text \<open>A log file of the directory: its name, its modification time and its lines.\<close>

record logfile =
  fname :: string
  mtime :: real
  flines :: "string list"

subsection \<open>The data model\<close>

record node =
  node_id :: string
  federation :: "string option"
  address :: "string option"
  peers :: "string set"
  tunnels :: "string set"
  messages_sent :: int
  messages_received :: int
  last_seen :: real
  status :: string

definition Node :: "string \<Rightarrow> string option \<Rightarrow> node" where
  "Node nid fed =
     \<lparr>node_id = nid, federation = fed, address = None, peers = {}, tunnels = {},
      messages_sent = 0, messages_received = 0, last_seen = 0, status = ''unknown''\<rparr>"

record connection =
  source :: string
  dest :: string
  tunnel_type :: "string option"
  msg_count :: int
  last_message :: real

text \<open>
  The field \<^verbatim>\<open>Connection.messages\<close> is \<^const>\<open>msg_count\<close> here, and the fields of
  \<^verbatim>\<open>Message\<close> carry the prefix \<open>m_\<close>: a record field is a constant, and the names
  \<^verbatim>\<open>source\<close>, \<^verbatim>\<open>dest\<close> and \<^verbatim>\<open>messages\<close> are taken.
\<close>

definition Connection :: "string \<Rightarrow> string \<Rightarrow> connection" where
  "Connection src dst =
     \<lparr>source = src, dest = dst, tunnel_type = None, msg_count = 0, last_message = 0\<rparr>"

text \<open>
  The timestamp of a message is \<^verbatim>\<open>timestamp or time.time()\<close>: the date parsed from
  the line when there is one, the wall clock otherwise.
\<close>

datatype 'd stamp = Parsed 'd | Clock real

record 'd message =
  m_source :: string
  m_dest :: string
  m_content :: string
  m_timestamp :: "'d stamp"

definition Message :: "string \<Rightarrow> string \<Rightarrow> string \<Rightarrow> 'd stamp \<Rightarrow> 'd message" where
  "Message src dst c t = \<lparr>m_source = src, m_dest = dst, m_content = c, m_timestamp = t\<rparr>"

record 'd store =
  nodes :: "(string \<times> node) list"
  connections :: "((string \<times> string) \<times> connection) list"
  messages :: "'d message list"

definition empty_store :: "'d store" where
  "empty_store = \<lparr>nodes = [], connections = [], messages = []\<rparr>"

subsection \<open>The classifiers\<close>

text \<open>\<^verbatim>\<open>Node.update_status\<close>, with \<open>now\<close> the reading of the clock.\<close>

definition update_status :: "real \<Rightarrow> node \<Rightarrow> node" where
  "update_status now n =
     (if now - last_seen n > 30 then n\<lparr>status := ''offline''\<rparr>
      else if now - last_seen n > 10 then n\<lparr>status := ''inactive''\<rparr>
      else n\<lparr>status := ''active''\<rparr>)"

text \<open>
  \<^verbatim>\<open>parse_node_id_from_filename\<close>: \<^verbatim>\<open>os.path.basename\<close> keeps what follows the last
  slash, \<^verbatim>\<open>os.path.splitext\<close> cuts at the last dot unless only dots precede it.
\<close>

definition basename :: "string \<Rightarrow> string" where
  "basename p = rev (takeWhile (\<lambda>c. c \<noteq> CHR ''/'') (rev p))"

definition splitext_root :: "string \<Rightarrow> string" where
  "splitext_root p =
     (if CHR ''.'' \<in> set p
      then (let root = rev (tl (dropWhile (\<lambda>c. c \<noteq> CHR ''.'') (rev p)))
            in if list_all (\<lambda>c. c = CHR ''.'') root then p else root)
      else p)"

definition parse_node_id_from_filename :: "string \<Rightarrow> string" where
  "parse_node_id_from_filename filename = splitext_root (basename filename)"

text \<open>\<^verbatim>\<open>parse_federation_from_node_id\<close>; \<^verbatim>\<open>parts[-1]\<close> is the last piece.\<close>

definition parse_federation_from_node_id :: "string \<Rightarrow> string option" where
  "parse_federation_from_node_id nid =
     (if contains ''federation-a'' nid then Some ''federation-a''
      else if contains ''federation-b'' nid then Some ''federation-b''
      else if contains ''federation-c'' nid then Some ''federation-c''
      else if contains ''cross-federation'' nid then
        (let parts = split_sep CHR ''-'' nid in
         if length parts \<ge> 3 then
           (if last parts = ''ab'' then Some ''federation-a+federation-b''
            else if last parts = ''bc'' then Some ''federation-b+federation-c''
            else if last parts = ''ac'' then Some ''federation-a+federation-c''
            else None)
         else None)
      else None)"

subsection \<open>Reconciliation: what one line does to the store\<close>

text \<open>
  Each function below is the body of one \<^verbatim>\<open>if match:\<close> block of
  \<^verbatim>\<open>parse_logs\<close>, for the node \<open>nid\<close> whose file is being read.
  \<^verbatim>\<open>parse_logs\<close> creates \<^verbatim>\<open>nodes[node_id]\<close> before it reads the file, so the
  lookups \<^verbatim>\<open>nodes[node_id]\<close> of these blocks never raise KeyError; the theorems about
  them assume that \<open>nid\<close> is a key of \<^const>\<open>nodes\<close>.
\<close>

definition node_initialized :: "string \<Rightarrow> string \<Rightarrow> 'd store \<Rightarrow> 'd store" where
  "node_initialized nid addr st =
     st\<lparr>nodes := AList.map_entry nid (\<lambda>n. n\<lparr>address := Some addr\<rparr>) (nodes st)\<rparr>"

text \<open>
  One round of the loop \<^verbatim>\<open>for other_id, other_node in nodes.items()\<close> of the
  peer-connected block: a new \<^verbatim>\<open>Connection\<close> when the key is not there yet.
\<close>

definition peer_link ::
  "string \<Rightarrow> string \<Rightarrow> string \<times> node \<Rightarrow> ((string \<times> string) \<times> connection) list
     \<Rightarrow> ((string \<times> string) \<times> connection) list" where
  "peer_link nid peer_addr = (\<lambda>(other_id, other_node) conns.
     if address other_node = Some peer_addr then
       (let conn_key = (nid, other_id) in
        if map_of conns conn_key = None
        then conns @ [(conn_key, Connection nid other_id)]
        else conns)
     else conns)"

definition peer_connected :: "string \<Rightarrow> string \<Rightarrow> 'd store \<Rightarrow> 'd store" where
  "peer_connected nid peer_addr st =
     (let st1 = st\<lparr>nodes := AList.map_entry nid
                   (\<lambda>n. n\<lparr>peers := insert peer_addr (peers n)\<rparr>) (nodes st)\<rparr>
      in st1\<lparr>connections := fold (peer_link nid peer_addr) (nodes st1) (connections st1)\<rparr>)"

text \<open>The loop of the tunnel-created block: set the tunnel type, creating the record if needed.\<close>

definition tunnel_link ::
  "string \<Rightarrow> string \<Rightarrow> string \<Rightarrow> string \<times> node \<Rightarrow> ((string \<times> string) \<times> connection) list
     \<Rightarrow> ((string \<times> string) \<times> connection) list" where
  "tunnel_link nid tunnel_dest ttype = (\<lambda>(other_id, other_node) conns.
     if address other_node = Some tunnel_dest then
       (let conn_key = (nid, other_id) in
        if map_of conns conn_key \<noteq> None
        then AList.map_entry conn_key (\<lambda>c. c\<lparr>tunnel_type := Some ttype\<rparr>) conns
        else conns @ [(conn_key, (Connection nid other_id)\<lparr>tunnel_type := Some ttype\<rparr>)])
     else conns)"

definition tunnel_created :: "string \<Rightarrow> string \<Rightarrow> string \<Rightarrow> 'd store \<Rightarrow> 'd store" where
  "tunnel_created nid tunnel_dest ttype st =
     (let st1 = st\<lparr>nodes := AList.map_entry nid
                   (\<lambda>n. n\<lparr>tunnels := insert tunnel_dest (tunnels n)\<rparr>) (nodes st)\<rparr>
      in st1\<lparr>connections :=
             fold (tunnel_link nid tunnel_dest ttype) (nodes st1) (connections st1)\<rparr>)"

text \<open>
  \<^verbatim>\<open>messages.append(msg)\<close>, then \<^verbatim>\<open>messages.pop(0)\<close> when the list has more than
  100 entries.
\<close>

definition append_message :: "'d message \<Rightarrow> 'd message list \<Rightarrow> 'd message list" where
  "append_message msg msgs =
     (let ms = msgs @ [msg] in if length ms > 100 then tl ms else ms)"

text \<open>
  The loop of the message-sent block. The counter of the connection moves only when the
  record is already there, and the message is appended for every node with the address.
\<close>

definition sent_link ::
  "'d env \<Rightarrow> 'd option \<Rightarrow> string \<Rightarrow> string \<Rightarrow> string \<Rightarrow> string \<times> node
     \<Rightarrow> 'd store \<Rightarrow> 'd store" where
  "sent_link e timestamp nid dest_addr message_content = (\<lambda>(other_id, other_node) st.
     if address other_node = Some dest_addr then
       (let conn_key = (nid, other_id);
            st1 = (if map_of (connections st) conn_key \<noteq> None
                   then st\<lparr>connections := AList.map_entry conn_key
                            (\<lambda>c. c\<lparr>msg_count := msg_count c + 1,
                                   last_message := time_now e\<rparr>) (connections st)\<rparr>
                   else st);
            msg = Message nid other_id message_content
                    (case timestamp of Some d \<Rightarrow> Parsed d | None \<Rightarrow> Clock (time_now e))
        in st1\<lparr>messages := append_message msg (messages st1)\<rparr>)
     else st)"

definition message_sent ::
  "'d env \<Rightarrow> 'd option \<Rightarrow> string \<Rightarrow> string \<Rightarrow> string \<Rightarrow> 'd store \<Rightarrow> 'd store" where
  "message_sent e timestamp nid dest_addr message_content st =
     (let st1 = st\<lparr>nodes := AList.map_entry nid
                   (\<lambda>n. n\<lparr>messages_sent := messages_sent n + 1\<rparr>) (nodes st)\<rparr>
      in fold (sent_link e timestamp nid dest_addr message_content) (nodes st1) st1)"

definition message_received :: "string \<Rightarrow> 'd store \<Rightarrow> 'd store" where
  "message_received nid st =
     st\<lparr>nodes := AList.map_entry nid
           (\<lambda>n. n\<lparr>messages_received := messages_received n + 1\<rparr>) (nodes st)\<rparr>"

text \<open>
  The body of \<^verbatim>\<open>for line in f\<close>: the timestamp, then the five grammars in the order
  of the source, each block ending in \<^verbatim>\<open>continue\<close>.
\<close>

definition line_timestamp :: "'d env \<Rightarrow> string \<Rightarrow> 'd option" where
  "line_timestamp e line =
     (case timestamp_str line of None \<Rightarrow> None | Some s \<Rightarrow> strptime e s)"

definition process_line :: "'d env \<Rightarrow> string \<Rightarrow> string \<Rightarrow> 'd store \<Rightarrow> 'd store" where
  "process_line e nid line st =
     (let timestamp = line_timestamp e line in
      case NODE_INITIALIZED_RE line of
        Some addr \<Rightarrow> node_initialized nid addr st
      | None \<Rightarrow>
     (case PEER_CONNECTED_RE line of
        Some peer_addr \<Rightarrow> peer_connected nid peer_addr st
      | None \<Rightarrow>
     (case TUNNEL_CREATED_RE line of
        Some (tunnel_dest, ttype) \<Rightarrow> tunnel_created nid tunnel_dest ttype st
      | None \<Rightarrow>
     (case MESSAGE_SENT_RE line of
        Some (dest_addr, message_content) \<Rightarrow>
          message_sent e timestamp nid dest_addr message_content st
      | None \<Rightarrow>
     (case MESSAGE_RECEIVED_RE line of
        Some (source_addr, message_content) \<Rightarrow> message_received nid st
      | None \<Rightarrow> st)))))"

subsection \<open>A pass over the directory\<close>

text \<open>
  The body of \<^verbatim>\<open>for filename in os.listdir(LOG_DIR)\<close> for a name that ends in
  \<^verbatim>\<open>.log\<close>: create the node if it is new, take the modification time of the file,
  read every line of the file from its first. The files of the listing are those that are
  there and can be read while the pass runs.
\<close>

definition parse_file :: "'d env \<Rightarrow> logfile \<Rightarrow> 'd store \<Rightarrow> 'd store" where
  "parse_file e f st =
     (let nid = parse_node_id_from_filename (fname f);
          fed = parse_federation_from_node_id nid;
          st1 = (if map_of (nodes st) nid = None
                 then st\<lparr>nodes := nodes st @ [(nid, Node nid fed)]\<rparr> else st);
          st2 = st1\<lparr>nodes := AList.map_entry nid (\<lambda>n. n\<lparr>last_seen := mtime f\<rparr>) (nodes st1)\<rparr>
      in fold (process_line e nid) (flines f) st2)"

text \<open>\<^verbatim>\<open>parse_logs\<close>: every log file of the listing, then the status of every node.\<close>

definition parse_logs :: "'d env \<Rightarrow> logfile list \<Rightarrow> 'd store \<Rightarrow> 'd store" where
  "parse_logs e listing st =
     (let st1 = fold (parse_file e) (filter (\<lambda>f. endswith ''.log'' (fname f)) listing) st
      in st1\<lparr>nodes := map (\<lambda>(k, n). (k, update_status (time_now e) n)) (nodes st1)\<rparr>)"

text \<open>
  \<^verbatim>\<open>monitor_loop\<close> calls \<^verbatim>\<open>parse_logs\<close> once per round, each time with the clock
  and the directory as they are then: the store after a sequence of passes.
\<close>

definition passes :: "('d env \<times> logfile list) list \<Rightarrow> 'd store \<Rightarrow> 'd store" where
  "passes ps st = fold (\<lambda>(e, listing). parse_logs e listing) ps st"

subsection \<open>Notions used to state the properties\<close>

text \<open>
  The block of \<^const>\<open>process_line\<close> that a line enters, with the captured fields: the
  first grammar that matches, in the order of the source.
\<close>

datatype event =
    NodeInitialized string
  | PeerConnected string
  | TunnelCreated string string
  | MessageSent string string
  | MessageReceived string string
  | Unmatched

definition match_line :: "string \<Rightarrow> event" where
  "match_line line =
     (case NODE_INITIALIZED_RE line of
        Some addr \<Rightarrow> NodeInitialized addr
      | None \<Rightarrow>
     (case PEER_CONNECTED_RE line of
        Some peer_addr \<Rightarrow> PeerConnected peer_addr
      | None \<Rightarrow>
     (case TUNNEL_CREATED_RE line of
        Some (tunnel_dest, ttype) \<Rightarrow> TunnelCreated tunnel_dest ttype
      | None \<Rightarrow>
     (case MESSAGE_SENT_RE line of
        Some (dest_addr, message_content) \<Rightarrow> MessageSent dest_addr message_content
      | None \<Rightarrow>
     (case MESSAGE_RECEIVED_RE line of
        Some (source_addr, message_content) \<Rightarrow> MessageReceived source_addr message_content
      | None \<Rightarrow> Unmatched)))))"

fun is_sent :: "event \<Rightarrow> bool" where
  "is_sent (MessageSent a c) = True"
| "is_sent ev = False"

fun is_received :: "event \<Rightarrow> bool" where
  "is_received (MessageReceived a c) = True"
| "is_received ev = False"

text \<open>The nodes of the store whose address is the given one, in the order of the loops.\<close>

definition advertisers :: "string \<Rightarrow> 'd store \<Rightarrow> string list" where
  "advertisers addr st = map fst (filter (\<lambda>(k, n). address n = Some addr) (nodes st))"

text \<open>The keys of the two dictionaries, and the fields of a node that may not be there.\<close>

definition node_ids :: "'d store \<Rightarrow> string list" where
  "node_ids st = map fst (nodes st)"

definition conn_keys :: "'d store \<Rightarrow> (string \<times> string) list" where
  "conn_keys st = map fst (connections st)"

definition sent_of :: "'d store \<Rightarrow> string \<Rightarrow> int" where
  "sent_of st nid = (case map_of (nodes st) nid of None \<Rightarrow> 0 | Some n \<Rightarrow> messages_sent n)"

definition received_of :: "'d store \<Rightarrow> string \<Rightarrow> int" where
  "received_of st nid =
     (case map_of (nodes st) nid of None \<Rightarrow> 0 | Some n \<Rightarrow> messages_received n)"

definition address_of :: "'d store \<Rightarrow> string \<Rightarrow> string option" where
  "address_of st nid = (case map_of (nodes st) nid of None \<Rightarrow> None | Some n \<Rightarrow> address n)"

definition peers_of :: "'d store \<Rightarrow> string \<Rightarrow> string set" where
  "peers_of st nid = (case map_of (nodes st) nid of None \<Rightarrow> {} | Some n \<Rightarrow> peers n)"

definition tunnels_of :: "'d store \<Rightarrow> string \<Rightarrow> string set" where
  "tunnels_of st nid = (case map_of (nodes st) nid of None \<Rightarrow> {} | Some n \<Rightarrow> tunnels n)"

text \<open>The timestamp that a message gets: \<^verbatim>\<open>timestamp or time.time()\<close>.\<close>

definition stamp_of :: "'d env \<Rightarrow> 'd option \<Rightarrow> 'd stamp" where
  "stamp_of e ts = (case ts of Some d \<Rightarrow> Parsed d | None \<Rightarrow> Clock (time_now e))"

text \<open>
  The number of lines of a file that enter the message-sent (message-received) block,
  and the message count of a connection key, 0 when there is no record.
\<close>

definition sent_count :: "string list \<Rightarrow> int" where
  "sent_count ls = int (length (filter (\<lambda>l. is_sent (match_line l)) ls))"

definition received_count :: "string list \<Rightarrow> int" where
  "received_count ls = int (length (filter (\<lambda>l. is_received (match_line l)) ls))"

definition message_count ::
  "((string \<times> string) \<times> connection) list \<Rightarrow> string \<times> string \<Rightarrow> int" where
  "message_count conns k = (case map_of conns k of None \<Rightarrow> 0 | Some c \<Rightarrow> msg_count c)"

text \<open>
  The store when the first line of a file is about to be read: the first half of
  \<^const>\<open>parse_file\<close>, where the node is created and its file time taken.
\<close>

definition opened :: "logfile \<Rightarrow> 'd store \<Rightarrow> 'd store" where
  "opened f st =
     (let nid = parse_node_id_from_filename (fname f);
          fed = parse_federation_from_node_id nid;
          st1 = (if map_of (nodes st) nid = None
                 then st\<lparr>nodes := nodes st @ [(nid, Node nid fed)]\<rparr> else st)
      in st1\<lparr>nodes := AList.map_entry nid (\<lambda>n. n\<lparr>last_seen := mtime f\<rparr>) (nodes st1)\<rparr>)"

text \<open>
  The log files of a listing that belong to a node, and the number of their lines that
  enter the message-sent (message-received) block.
\<close>

definition files_of :: "string \<Rightarrow> logfile list \<Rightarrow> logfile list" where
  "files_of nid listing =
     filter (\<lambda>f. parse_node_id_from_filename (fname f) = nid)
       (filter (\<lambda>f. endswith ''.log'' (fname f)) listing)"

definition sent_lines :: "string \<Rightarrow> logfile list \<Rightarrow> int" where
  "sent_lines nid listing = (\<Sum>f\<leftarrow>files_of nid listing. sent_count (flines f))"

definition received_lines :: "string \<Rightarrow> logfile list \<Rightarrow> int" where
  "received_lines nid listing = (\<Sum>f\<leftarrow>files_of nid listing. received_count (flines f))"

text \<open>
  The address that is stored for a node after the given lines of its own files are read,
  when \<open>cur\<close> was stored before: every node-initialized line overwrites it.
\<close>

definition address_after :: "string list \<Rightarrow> string option \<Rightarrow> string option" where
  "address_after ls cur =
     fold (\<lambda>l cur. case match_line l of NodeInitialized a \<Rightarrow> Some a | _ \<Rightarrow> cur) ls cur"

text \<open>
  The lines of the files of node \<open>b\<close> that a pass has read when it is at a line of the
  file \<open>f\<close>: those of the files \<open>fs1\<close> listed before \<open>f\<close>, and the lines \<open>ls1\<close> of
  \<open>f\<close> above that line when \<open>f\<close> is a file of \<open>b\<close> itself.
\<close>

definition lines_before :: "string \<Rightarrow> logfile list \<Rightarrow> logfile \<Rightarrow> string list \<Rightarrow> string list" where
  "lines_before b fs1 f ls1 =
     concat (map flines (filter (\<lambda>g. parse_node_id_from_filename (fname g) = b) fs1))
     @ (if parse_node_id_from_filename (fname f) = b then ls1 else [])"

text \<open>The record under a key, if there is one, names the two nodes of the key.\<close>

definition keyed :: "string \<times> string \<Rightarrow> ((string \<times> string) \<times> connection) list \<Rightarrow> bool" where
  "keyed k conns =
     (case map_of conns k of None \<Rightarrow> True | Some c \<Rightarrow> source c = fst k \<and> dest c = snd k)"

subsection \<open>The exceptions of a pass\<close>

text \<open>
  The functions above are total. In the source, each of the five blocks starts with the
  lookup \<^verbatim>\<open>nodes[node_id]\<close>, which raises KeyError when the node is not in the
  dictionary; no other statement of a block can raise, and a line that matches no
  grammar touches nothing. The functions below return the exception as a value; a pass
  built from them is shown to return what \<^const>\<open>parse_logs\<close> returns.
\<close>

datatype py_error = KeyError string

definition process_line_checked ::
  "'d env \<Rightarrow> string \<Rightarrow> string \<Rightarrow> 'd store \<Rightarrow> py_error + 'd store" where
  "process_line_checked e nid line st =
     (case match_line line of
        Unmatched \<Rightarrow> Inr st
      | _ \<Rightarrow> (if map_of (nodes st) nid = None then Inl (KeyError nid)
              else Inr (process_line e nid line st)))"

fun fold_checked :: "('a \<Rightarrow> 's \<Rightarrow> py_error + 's) \<Rightarrow> 'a list \<Rightarrow> 's \<Rightarrow> py_error + 's" where
  "fold_checked f [] s = Inr s"
| "fold_checked f (x # xs) s =
     (case f x s of Inl err \<Rightarrow> Inl err | Inr s' \<Rightarrow> fold_checked f xs s')"

definition parse_file_checked :: "'d env \<Rightarrow> logfile \<Rightarrow> 'd store \<Rightarrow> py_error + 'd store" where
  "parse_file_checked e f st =
     fold_checked (process_line_checked e (parse_node_id_from_filename (fname f)))
       (flines f) (opened f st)"

definition parse_logs_checked ::
  "'d env \<Rightarrow> logfile list \<Rightarrow> 'd store \<Rightarrow> py_error + 'd store" where
  "parse_logs_checked e listing st =
     (case fold_checked (parse_file_checked e)
             (filter (\<lambda>f. endswith ''.log'' (fname f)) listing) st of
        Inl err \<Rightarrow> Inl err
      | Inr st1 \<Rightarrow>
          Inr (st1\<lparr>nodes := map (\<lambda>(k, n). (k, update_status (time_now e) n)) (nodes st1)\<rparr>))"

subsection \<open>Concrete logs\<close>

text \<open>A line as the iteration over a file yields it, and an environment without dates.\<close>

definition log_line :: "string \<Rightarrow> string" where
  "log_line s = s @ [CHR 0x0A]"

definition no_dates :: "string \<Rightarrow> unit option" where
  "no_dates s = None"

definition env_at :: "real \<Rightarrow> unit env" where
  "env_at t = \<lparr>time_now = t, strptime = no_dates\<rparr>"

definition log_file :: "string \<Rightarrow> string list \<Rightarrow> logfile" where
  "log_file name ls = \<lparr>fname = name, mtime = 95, flines = map log_line ls\<rparr>"

text \<open>The two sources of the end-to-end scenario of the specification.\<close>

definition A_log :: logfile where
  "A_log = log_file ''A.log''
     [''Node initialized with overlay address: addr-A'', ''Sending msg to addr-B: hello'']"

definition B_log :: logfile where
  "B_log = log_file ''B.log'' [''Node initialized with overlay address: addr-B'']"

text \<open>A node that logs its address twice, and the same log cut after the first line.\<close>

definition twice_init_log :: logfile where
  "twice_init_log = log_file ''A.log''
     [''Node initialized with overlay address: addr-1'',
      ''Node initialized with overlay address: addr-2'']"

definition once_init_log :: logfile where
  "once_init_log = log_file ''A.log'' [''Node initialized with overlay address: addr-1'']"

text \<open>Two nodes that log the same address, and a third that connects to it.\<close>

definition shared_address_listing :: "logfile list" where
  "shared_address_listing =
     [log_file ''B.log'' [''Node initialized with overlay address: addr-X''],
      log_file ''C.log'' [''Node initialized with overlay address: addr-X''],
      log_file ''A.log'' [''Connected to peer: addr-X'']]"

text \<open>
  Node A connects to the address of node B; B is listed first, and then last. The store
  after a pass over the second listing: the owner of the address was read too late.
\<close>

definition A_peer_log :: logfile where
  "A_peer_log = log_file ''A.log'' [''Connected to peer: addr-B'']"

definition peer_listing :: "logfile list" where
  "peer_listing = [B_log, A_peer_log]"

definition late_owner_listing :: "logfile list" where
  "late_owner_listing = [A_peer_log, B_log]"

definition late_owner_store :: "unit store" where
  "late_owner_store = parse_logs (env_at 100) late_owner_listing empty_store"

text \<open>Node A logs a tunnel to the address of node B.\<close>

definition tunnel_listing :: "logfile list" where
  "tunnel_listing = [B_log, log_file ''A.log'' [''Created tunnel to addr-B using wireguard'']]"

text \<open>
  Stores reached by one pass from the empty store: B and C with the same address and an
  idle A; B and an idle A; and the store after the tunnel of A to B.
\<close>

definition shared_address_store :: "unit store" where
  "shared_address_store = parse_logs (env_at 100)
     [log_file ''B.log'' [''Node initialized with overlay address: addr-X''],
      log_file ''C.log'' [''Node initialized with overlay address: addr-X''],
      log_file ''A.log'' []] empty_store"

definition idle_store :: "unit store" where
  "idle_store = parse_logs (env_at 100) [B_log, log_file ''A.log'' []] empty_store"

definition tunnel_store :: "unit store" where
  "tunnel_store = parse_logs (env_at 100) tunnel_listing empty_store"

text \<open>Two nodes with traffic: A connects to B and sends, B receives.\<close>

definition traffic_listing :: "logfile list" where
  "traffic_listing =
     [log_file ''B.log''
        [''Node initialized with overlay address: addr-B'',
         ''Received message from addr-A: hello''],
      log_file ''A.log''
        [''Node initialized with overlay address: addr-A'',
         ''Connected to peer: addr-B'',
         ''Sending msg to addr-B: hello'']]"

text \<open>
  The owner of an address logs a second address after it, and the other way round; node
  A connects to the first address. A node C that logs the address of B after A has
  connected to it.
\<close>

definition B_moved_log :: logfile where
  "B_moved_log = log_file ''B.log''
     [''Node initialized with overlay address: addr-B'',
      ''Node initialized with overlay address: addr-B2'']"

definition B_back_log :: logfile where
  "B_back_log = log_file ''B.log''
     [''Node initialized with overlay address: addr-B2'',
      ''Node initialized with overlay address: addr-B'']"

definition late_twin_listing :: "logfile list" where
  "late_twin_listing =
     [log_file ''B.log'' [''Node initialized with overlay address: addr-X''],
      log_file ''A.log'' [''Connected to peer: addr-X''],
      log_file ''C.log'' [''Node initialized with overlay address: addr-X'']]"

definition late_twin_store :: "unit store" where
  "late_twin_store = parse_logs (env_at 100) late_twin_listing empty_store"

text \<open>
  A store with the nodes A and B of the scenario and a full message sequence.
\<close>

definition full_scenario_store :: "unit store" where
  "full_scenario_store =
     (parse_logs (env_at 100) [B_log, log_file ''A.log'' []] empty_store)\<lparr>messages :=
        Message ''A'' ''B'' ''oldest'' (Clock 0)
        # replicate 99 (Message ''A'' ''B'' ''newer'' (Clock 1))\<rparr>"

section \<open>Properties\<close>

subsection \<open>Association lists\<close>

lemma map_fst_map_entry: "map fst (AList.map_entry k f xs) = map fst xs"
  by (induction xs) auto

lemma map_of_map_entry_eq:
  "map_of (AList.map_entry k f xs) k' =
     (if k' = k then map_option f (map_of xs k) else map_of xs k')"
  by (simp add: map_of_map_entry split: option.splits)

lemma map_entry_id: "(\<And>v. map_of xs k = Some v \<Longrightarrow> f v = v) \<Longrightarrow> AList.map_entry k f xs = xs"
  by (induction xs) (auto split: if_splits)

lemma map_of_None_iff: "(map_of xs k = None) = (k \<notin> set (map fst xs))"
  by (simp add: map_of_eq_None_iff)

lemma filter_map_entry_address:
  "(\<And>n. address (f n) = address n) \<Longrightarrow>
     map fst (filter (\<lambda>(k, n). address n = Some a) (AList.map_entry nid f xs)) =
     map fst (filter (\<lambda>(k, n). address n = Some a) xs)"
  by (induction xs) auto

subsection \<open>The blocks of process_line\<close>

lemma process_line_match:
  "process_line e nid line st =
     (case match_line line of
        NodeInitialized addr \<Rightarrow> node_initialized nid addr st
      | PeerConnected peer_addr \<Rightarrow> peer_connected nid peer_addr st
      | TunnelCreated tunnel_dest ttype \<Rightarrow> tunnel_created nid tunnel_dest ttype st
      | MessageSent dest_addr c \<Rightarrow> message_sent e (line_timestamp e line) nid dest_addr c st
      | MessageReceived source_addr c \<Rightarrow> message_received nid st
      | Unmatched \<Rightarrow> st)"
  by (simp add: process_line_def match_line_def Let_def split: option.splits prod.splits)

subsection \<open>The loops over the nodes\<close>

lemma nodes_fold_sent_link [simp]:
  "nodes (fold (sent_link e ts nid a c) xs st) = nodes st"
  by (induction xs arbitrary: st) (auto simp: sent_link_def Let_def)

lemma conn_keys_sent_link:
  "map fst (connections (sent_link e ts nid a c x st)) = map fst (connections st)"
  by (cases x) (simp add: sent_link_def Let_def map_fst_map_entry)

lemma conn_keys_fold_sent_link:
  "map fst (connections (fold (sent_link e ts nid a c) xs st)) = map fst (connections st)"
  by (induction xs arbitrary: st) (simp_all add: conn_keys_sent_link)

lemma keys_peer_link:
  "set (map fst (peer_link nid a x conns)) =
     set (map fst conns) \<union> (if address (snd x) = Some a then {(nid, fst x)} else {})"
  by (cases x) (auto simp: peer_link_def Let_def map_of_None_iff)

lemma keys_fold_peer_link:
  "set (map fst (fold (peer_link nid a) xs conns)) =
     set (map fst conns) \<union> {(nid, k) |k. k \<in> set (map fst (filter (\<lambda>(k, n). address n = Some a) xs))}"
proof (induction xs arbitrary: conns)
  case Nil
  then show ?case by simp
next
  case (Cons x xs)
  show ?case
    by (cases x) (auto simp: Cons.IH keys_peer_link simp del: set_map)
qed

lemma keys_tunnel_link:
  "set (map fst (tunnel_link nid a t x conns)) =
     set (map fst conns) \<union> (if address (snd x) = Some a then {(nid, fst x)} else {})"
  by (cases x) (auto simp: tunnel_link_def Let_def map_of_None_iff map_fst_map_entry
      simp flip: set_map)

lemma keys_fold_tunnel_link:
  "set (map fst (fold (tunnel_link nid a t) xs conns)) =
     set (map fst conns) \<union> {(nid, k) |k. k \<in> set (map fst (filter (\<lambda>(k, n). address n = Some a) xs))}"
proof (induction xs arbitrary: conns)
  case Nil
  then show ?case by simp
next
  case (Cons x xs)
  show ?case
    by (cases x) (auto simp: Cons.IH keys_tunnel_link simp del: set_map)
qed

subsection \<open>What a block leaves alone\<close>

lemma nodes_node_initialized:
  "nodes (node_initialized nid a st) =
     AList.map_entry nid (\<lambda>n. n\<lparr>address := Some a\<rparr>) (nodes st)"
  by (simp add: node_initialized_def)

lemma nodes_peer_connected:
  "nodes (peer_connected nid a st) =
     AList.map_entry nid (\<lambda>n. n\<lparr>peers := insert a (peers n)\<rparr>) (nodes st)"
  by (simp add: peer_connected_def Let_def)

lemma nodes_tunnel_created:
  "nodes (tunnel_created nid a t st) =
     AList.map_entry nid (\<lambda>n. n\<lparr>tunnels := insert a (tunnels n)\<rparr>) (nodes st)"
  by (simp add: tunnel_created_def Let_def)

lemma nodes_message_sent:
  "nodes (message_sent e ts nid a c st) =
     AList.map_entry nid (\<lambda>n. n\<lparr>messages_sent := messages_sent n + 1\<rparr>) (nodes st)"
  by (simp add: message_sent_def Let_def)

lemma nodes_message_received:
  "nodes (message_received nid st) =
     AList.map_entry nid (\<lambda>n. n\<lparr>messages_received := messages_received n + 1\<rparr>) (nodes st)"
  by (simp add: message_received_def)

lemmas nodes_block = nodes_node_initialized nodes_peer_connected nodes_tunnel_created
  nodes_message_sent nodes_message_received

lemma connections_node_initialized [simp]:
  "connections (node_initialized nid a st) = connections st"
  by (simp add: node_initialized_def)

lemma connections_message_received [simp]:
  "connections (message_received nid st) = connections st"
  by (simp add: message_received_def)

lemma messages_node_initialized [simp]: "messages (node_initialized nid a st) = messages st"
  by (simp add: node_initialized_def)

lemma messages_peer_connected [simp]: "messages (peer_connected nid a st) = messages st"
  by (simp add: peer_connected_def Let_def)

lemma messages_tunnel_created [simp]: "messages (tunnel_created nid a t st) = messages st"
  by (simp add: tunnel_created_def Let_def)

lemma messages_message_received [simp]: "messages (message_received nid st) = messages st"
  by (simp add: message_received_def)

lemma node_ids_process_line [simp]: "node_ids (process_line e nid line st) = node_ids st"
  by (simp add: node_ids_def process_line_match nodes_block map_fst_map_entry split: event.splits)

subsection \<open>Linking\<close>

lemma conn_keys_peer_connected:
  "set (conn_keys (peer_connected nid a st)) =
     set (conn_keys st) \<union> {(nid, k) |k. k \<in> set (advertisers a st)}"
  by (simp add: conn_keys_def peer_connected_def Let_def keys_fold_peer_link advertisers_def
      filter_map_entry_address del: set_map)

lemma conn_keys_tunnel_created:
  "set (conn_keys (tunnel_created nid a t st)) =
     set (conn_keys st) \<union> {(nid, k) |k. k \<in> set (advertisers a st)}"
  by (simp add: conn_keys_def tunnel_created_def Let_def keys_fold_tunnel_link advertisers_def
      filter_map_entry_address del: set_map)

lemma conn_keys_message_sent: "conn_keys (message_sent e ts nid a c st) = conn_keys st"
  by (simp add: conn_keys_def message_sent_def Let_def conn_keys_fold_sent_link)

lemma messages_fold_sent_link:
  "messages (fold (sent_link e ts nid a c) xs st) =
     fold append_message
       (map (\<lambda>k. Message nid k c (stamp_of e ts))
          (map fst (filter (\<lambda>(k, n). address n = Some a) xs)))
       (messages st)"
  by (induction xs arbitrary: st) (auto simp: sent_link_def Let_def stamp_of_def)

lemma messages_message_sent:
  "messages (message_sent e ts nid a c st) =
     fold append_message (map (\<lambda>k. Message nid k c (stamp_of e ts)) (advertisers a st))
       (messages st)"
  by (simp add: message_sent_def Let_def messages_fold_sent_link advertisers_def
      filter_map_entry_address)

lemma fold_peer_link_none:
  "filter (\<lambda>(k, n). address n = Some a) xs = [] \<Longrightarrow> fold (peer_link nid a) xs conns = conns"
  by (induction xs) (auto simp: peer_link_def split: if_splits)

lemma fold_tunnel_link_none:
  "filter (\<lambda>(k, n). address n = Some a) xs = [] \<Longrightarrow> fold (tunnel_link nid a t) xs conns = conns"
  by (induction xs) (auto simp: tunnel_link_def split: if_splits)

lemma fold_sent_link_none:
  "filter (\<lambda>(k, n). address n = Some a) xs = [] \<Longrightarrow>
     fold (sent_link e ts nid a c) xs st = st"
  by (induction xs) (auto simp: sent_link_def split: if_splits)

lemma filter_address_map_entry_none:
  "(\<And>n. address (f n) = address n) \<Longrightarrow>
     (filter (\<lambda>(k, n). address n = Some a) (AList.map_entry nid f xs) = []) =
     (filter (\<lambda>(k, n). address n = Some a) xs = [])"
  by (induction xs) auto

lemma connections_peer_connected_none:
  "advertisers a st = [] \<Longrightarrow> connections (peer_connected nid a st) = connections st"
  by (simp add: advertisers_def peer_connected_def Let_def fold_peer_link_none
      filter_address_map_entry_none)

lemma connections_tunnel_created_none:
  "advertisers a st = [] \<Longrightarrow> connections (tunnel_created nid a t st) = connections st"
  by (simp add: advertisers_def tunnel_created_def Let_def fold_tunnel_link_none
      filter_address_map_entry_none)

lemma message_sent_none:
  "advertisers a st = [] \<Longrightarrow>
     connections (message_sent e ts nid a c st) = connections st \<and>
     messages (message_sent e ts nid a c st) = messages st"
  by (simp add: advertisers_def message_sent_def Let_def fold_sent_link_none
      filter_address_map_entry_none)

lemma map_of_in_keys: "k \<in> set (map fst xs) \<Longrightarrow> \<exists>v. map_of xs k = Some v"
  by (cases "map_of xs k") (simp_all add: map_of_None_iff del: set_map)

lemma address_of_node_initialized:
  "nid \<in> set (node_ids st) \<Longrightarrow> address_of (node_initialized nid a st) k =
     (if k = nid then Some a else address_of st k)"
  using map_of_in_keys [of nid "nodes st"]
  by (auto simp: address_of_def node_ids_def nodes_node_initialized map_of_map_entry_eq
      simp del: set_map)

subsection \<open>The bound on the message sequence\<close>

lemma length_append_message: "length msgs \<le> 100 \<Longrightarrow> length (append_message m msgs) \<le> 100"
  by (simp add: append_message_def Let_def)

lemma length_sent_link:
  "length (messages st) \<le> 100 \<Longrightarrow> length (messages (sent_link e ts nid a c x st)) \<le> 100"
  by (cases x) (simp add: sent_link_def Let_def length_append_message)

lemma length_fold_sent_link:
  "length (messages st) \<le> 100 \<Longrightarrow>
     length (messages (fold (sent_link e ts nid a c) xs st)) \<le> 100"
  by (induction xs arbitrary: st) (simp_all add: length_sent_link)

lemma length_message_sent:
  "length (messages st) \<le> 100 \<Longrightarrow> length (messages (message_sent e ts nid a c st)) \<le> 100"
  by (simp add: message_sent_def Let_def length_fold_sent_link)

lemma length_process_line:
  "length (messages st) \<le> 100 \<Longrightarrow> length (messages (process_line e nid line st)) \<le> 100"
  by (simp add: process_line_match length_message_sent split: event.splits)

lemma length_fold_process_line:
  "length (messages st) \<le> 100 \<Longrightarrow>
     length (messages (fold (process_line e nid) ls st)) \<le> 100"
  by (induction ls arbitrary: st) (simp_all add: length_process_line)

lemma length_parse_file:
  "length (messages st) \<le> 100 \<Longrightarrow> length (messages (parse_file e f st)) \<le> 100"
  by (simp add: parse_file_def Let_def length_fold_process_line)

lemma length_fold_parse_file:
  "length (messages st) \<le> 100 \<Longrightarrow> length (messages (fold (parse_file e) fs st)) \<le> 100"
  by (induction fs arbitrary: st) (simp_all add: length_parse_file)

lemma length_parse_logs:
  "length (messages st) \<le> 100 \<Longrightarrow> length (messages (parse_logs e listing st)) \<le> 100"
  by (simp add: parse_logs_def Let_def length_fold_parse_file)

lemma length_passes:
  "length (messages st) \<le> 100 \<Longrightarrow> length (messages (passes ps st)) \<le> 100"
  unfolding passes_def
  by (induction ps arbitrary: st) (auto simp: length_parse_logs)

subsection \<open>Records that are already there\<close>

lemma fold_peer_link_present:
  "\<forall>k \<in> set (map fst (filter (\<lambda>(k, n). address n = Some a) xs)). (nid, k) \<in> set (map fst conns)
     \<Longrightarrow> fold (peer_link nid a) xs conns = conns"
  by (induction xs) (auto simp: peer_link_def Let_def map_of_None_iff simp del: set_map)

lemma keys_tunnel_link_present:
  "address (snd x) = Some a \<longrightarrow> (nid, fst x) \<in> set (map fst conns)
     \<Longrightarrow> map fst (tunnel_link nid a t x conns) = map fst conns"
  by (cases x) (auto simp: tunnel_link_def Let_def map_of_None_iff map_fst_map_entry
      simp del: set_map)

lemma keys_fold_tunnel_link_present:
  "\<forall>k \<in> set (map fst (filter (\<lambda>(k, n). address n = Some a) xs)). (nid, k) \<in> set (map fst conns)
     \<Longrightarrow> map fst (fold (tunnel_link nid a t) xs conns) = map fst conns"
proof (induction xs arbitrary: conns)
  case Nil
  then show ?case by simp
next
  case (Cons x xs)
  have step: "map fst (tunnel_link nid a t x conns) = map fst conns"
    using Cons.prems by (intro keys_tunnel_link_present) (cases x, auto)
  have "map fst (fold (tunnel_link nid a t) xs (tunnel_link nid a t x conns))
          = map fst (tunnel_link nid a t x conns)"
    using Cons.prems by (intro Cons.IH) (auto simp: step simp del: set_map)
  with step show ?case by simp
qed

lemma map_of_append_present: "map_of xs k = Some v \<Longrightarrow> map_of (xs @ ys) k = Some v"
  by (simp add: map_add_Some_iff)

lemma map_of_peer_link:
  "map_of conns k = Some c \<Longrightarrow> map_of (peer_link nid a x conns) k = Some c"
  by (cases x) (auto simp: peer_link_def Let_def map_of_append_present)

lemma map_of_fold_peer_link:
  "map_of conns k = Some c \<Longrightarrow> map_of (fold (peer_link nid a) xs conns) k = Some c"
  by (induction xs arbitrary: conns) (simp_all add: map_of_peer_link)

lemma tunnel_type_same: "\<exists>tt. (c :: connection) = c\<lparr>tunnel_type := tt\<rparr>"
  by (rule exI [of _ "tunnel_type c"]) simp

lemma map_of_tunnel_link:
  assumes "map_of conns k = Some c"
  shows "\<exists>tt. map_of (tunnel_link nid a t x conns) k = Some (c\<lparr>tunnel_type := tt\<rparr>)"
proof (cases x)
  case (Pair other_id other_node)
  show ?thesis
  proof (cases "address other_node = Some a \<and> k = (nid, other_id)")
    case True
    with Pair assms show ?thesis
      by (auto simp: tunnel_link_def Let_def map_of_map_entry_eq)
  next
    case False
    with Pair assms have "map_of (tunnel_link nid a t x conns) k = Some c"
      by (auto simp: tunnel_link_def Let_def map_of_map_entry_eq map_of_append_present)
    with tunnel_type_same [of c] show ?thesis by auto
  qed
qed

lemma map_of_fold_tunnel_link:
  "map_of conns k = Some c \<Longrightarrow>
     \<exists>tt. map_of (fold (tunnel_link nid a t) xs conns) k = Some (c\<lparr>tunnel_type := tt\<rparr>)"
proof (induction xs arbitrary: conns c)
  case Nil
  with tunnel_type_same [of c] show ?case by auto
next
  case (Cons x xs)
  from map_of_tunnel_link [OF Cons.prems, of nid a t x]
  obtain tt where "map_of (tunnel_link nid a t x conns) k = Some (c\<lparr>tunnel_type := tt\<rparr>)"
    by blast
  from Cons.IH [OF this] show ?case by auto
qed

subsection \<open>One record for each ordered pair\<close>

lemma distinct_peer_link:
  "distinct (map fst conns) \<Longrightarrow> distinct (map fst (peer_link nid a x conns))"
  by (cases x) (auto simp: peer_link_def Let_def map_of_None_iff simp del: set_map)

lemma distinct_fold_peer_link:
  "distinct (map fst conns) \<Longrightarrow> distinct (map fst (fold (peer_link nid a) xs conns))"
  by (induction xs arbitrary: conns) (simp_all add: distinct_peer_link)

lemma distinct_tunnel_link:
  "distinct (map fst conns) \<Longrightarrow> distinct (map fst (tunnel_link nid a t x conns))"
  by (cases x) (auto simp: tunnel_link_def Let_def map_of_None_iff map_fst_map_entry
      simp del: set_map)

lemma distinct_fold_tunnel_link:
  "distinct (map fst conns) \<Longrightarrow> distinct (map fst (fold (tunnel_link nid a t) xs conns))"
  by (induction xs arbitrary: conns) (simp_all add: distinct_tunnel_link)

lemma distinct_process_line:
  "distinct (conn_keys st) \<Longrightarrow> distinct (conn_keys (process_line e nid line st))"
  by (simp add: process_line_match conn_keys_message_sent split: event.splits)
     (simp add: conn_keys_def peer_connected_def tunnel_created_def Let_def
        distinct_fold_peer_link distinct_fold_tunnel_link)

lemma peers_of_peer_connected:
  "nid \<in> set (node_ids st) \<Longrightarrow>
     peers_of (peer_connected nid a st) nid = insert a (peers_of st nid)"
  using map_of_in_keys [of nid "nodes st"]
  by (auto simp: peers_of_def node_ids_def nodes_peer_connected map_of_map_entry_eq
      simp del: set_map)

subsection \<open>The scenario logs\<close>

lemma update_status_fields [simp]:
  "messages_sent (update_status now n) = messages_sent n"
  "messages_received (update_status now n) = messages_received n"
  "address (update_status now n) = address n"
  "peers (update_status now n) = peers n"
  "tunnels (update_status now n) = tunnels n"
  by (simp_all add: update_status_def)

lemma scenario_names:
  "parse_node_id_from_filename ''A.log'' = ''A''"
  "parse_node_id_from_filename ''B.log'' = ''B''"
  "endswith ''.log'' ''A.log''"
  "endswith ''.log'' ''B.log''"
  "parse_federation_from_node_id ''A'' = None"
  "parse_federation_from_node_id ''B'' = None"
  by code_simp+

lemma scenario_lines:
  "match_line (log_line ''Node initialized with overlay address: addr-A'')
     = NodeInitialized ''addr-A''"
  "match_line (log_line ''Node initialized with overlay address: addr-B'')
     = NodeInitialized ''addr-B''"
  "match_line (log_line ''Sending msg to addr-B: hello'') = MessageSent ''addr-B'' ''hello''"
  "timestamp_str (log_line ''Sending msg to addr-B: hello'') = None"
  by code_simp+

subsection \<open>Counters\<close>

lemma sent_of_process_line:
  assumes "nid \<in> set (node_ids st)"
  shows "sent_of (process_line e nid line st) k =
           sent_of st k + (if k = nid \<and> is_sent (match_line line) then 1 else 0)"
proof -
  obtain n where n: "map_of (nodes st) nid = Some n"
    using map_of_in_keys [of nid "nodes st"] assms by (auto simp: node_ids_def)
  show ?thesis
    by (cases "match_line line")
       (simp_all add: process_line_match sent_of_def nodes_block map_of_map_entry_eq n)
qed

lemma sent_of_fold_lines:
  "nid \<in> set (node_ids st) \<Longrightarrow>
     sent_of (fold (process_line e nid) ls st) k =
       sent_of st k + (if k = nid then sent_count ls else 0)"
proof (induction ls arbitrary: st)
  case Nil
  then show ?case by (simp add: sent_count_def)
next
  case (Cons l ls)
  have "nid \<in> set (node_ids (process_line e nid l st))"
    using Cons.prems by simp
  from Cons.IH [OF this] show ?case
    by (simp add: sent_of_process_line [OF Cons.prems] sent_count_def)
qed

lemma received_of_process_line:
  assumes "nid \<in> set (node_ids st)"
  shows "received_of (process_line e nid line st) k =
           received_of st k + (if k = nid \<and> is_received (match_line line) then 1 else 0)"
proof -
  obtain n where n: "map_of (nodes st) nid = Some n"
    using map_of_in_keys [of nid "nodes st"] assms by (auto simp: node_ids_def)
  show ?thesis
    by (cases "match_line line")
       (simp_all add: process_line_match received_of_def nodes_block map_of_map_entry_eq n)
qed

lemma received_of_fold_lines:
  "nid \<in> set (node_ids st) \<Longrightarrow>
     received_of (fold (process_line e nid) ls st) k =
       received_of st k + (if k = nid then received_count ls else 0)"
proof (induction ls arbitrary: st)
  case Nil
  then show ?case by (simp add: received_count_def)
next
  case (Cons l ls)
  have "nid \<in> set (node_ids (process_line e nid l st))"
    using Cons.prems by simp
  from Cons.IH [OF this] show ?case
    by (simp add: received_of_process_line [OF Cons.prems] received_count_def)
qed

lemma parse_file_opened:
  "parse_file e f st =
     fold (process_line e (parse_node_id_from_filename (fname f))) (flines f) (opened f st)"
  by (simp add: parse_file_def opened_def Let_def)

lemma node_ids_opened:
  "set (node_ids (opened f st)) = insert (parse_node_id_from_filename (fname f)) (set (node_ids st))"
  by (auto simp: opened_def Let_def node_ids_def map_fst_map_entry map_of_None_iff
      simp del: set_map)

lemma map_of_snoc:
  "map_of (xs @ [(k, v)]) k' = (case map_of xs k' of Some w \<Rightarrow> Some w
     | None \<Rightarrow> if k' = k then Some v else None)"
  by (induction xs) auto

lemma sent_of_opened: "sent_of (opened f st) k = sent_of st k"
  by (auto simp: opened_def Let_def sent_of_def map_of_map_entry_eq map_of_snoc Node_def
      split: option.splits)

lemma received_of_opened: "received_of (opened f st) k = received_of st k"
  by (auto simp: opened_def Let_def received_of_def map_of_map_entry_eq map_of_snoc Node_def
      split: option.splits)

lemma connections_opened [simp]: "connections (opened f st) = connections st"
  by (simp add: opened_def Let_def)

lemma messages_opened [simp]: "messages (opened f st) = messages st"
  by (simp add: opened_def Let_def)

lemma sent_of_parse_file:
  "sent_of (parse_file e f st) k =
     sent_of st k + (if parse_node_id_from_filename (fname f) = k then sent_count (flines f) else 0)"
  by (auto simp: parse_file_opened sent_of_fold_lines node_ids_opened sent_of_opened)

lemma received_of_parse_file:
  "received_of (parse_file e f st) k =
     received_of st k
       + (if parse_node_id_from_filename (fname f) = k then received_count (flines f) else 0)"
  by (auto simp: parse_file_opened received_of_fold_lines node_ids_opened received_of_opened)

lemma sent_of_fold_files:
  "sent_of (fold (parse_file e) fs st) k =
     sent_of st k
       + (\<Sum>f\<leftarrow>filter (\<lambda>f. parse_node_id_from_filename (fname f) = k) fs. sent_count (flines f))"
  by (induction fs arbitrary: st) (simp_all add: sent_of_parse_file)

lemma received_of_fold_files:
  "received_of (fold (parse_file e) fs st) k =
     received_of st k
       + (\<Sum>f\<leftarrow>filter (\<lambda>f. parse_node_id_from_filename (fname f) = k) fs.
            received_count (flines f))"
  by (induction fs arbitrary: st) (simp_all add: received_of_parse_file)

lemma map_of_update_status:
  "map_of (map (\<lambda>(k, n). (k, update_status now n)) xs) k
     = map_option (update_status now) (map_of xs k)"
  by (induction xs) auto

lemma sent_of_update_status:
  "sent_of (st\<lparr>nodes := map (\<lambda>(k, n). (k, update_status now n)) (nodes st)\<rparr>) k = sent_of st k"
  by (cases "map_of (nodes st) k") (simp_all add: sent_of_def map_of_update_status)

lemma received_of_update_status:
  "received_of (st\<lparr>nodes := map (\<lambda>(k, n). (k, update_status now n)) (nodes st)\<rparr>) k
     = received_of st k"
  by (cases "map_of (nodes st) k") (simp_all add: received_of_def map_of_update_status)

lemma sent_of_parse_logs:
  "sent_of (parse_logs e listing st) k = sent_of st k + sent_lines k listing"
  by (simp add: parse_logs_def Let_def sent_of_update_status sent_of_fold_files sent_lines_def
      files_of_def)

lemma received_of_parse_logs:
  "received_of (parse_logs e listing st) k = received_of st k + received_lines k listing"
  by (simp add: parse_logs_def Let_def received_of_update_status received_of_fold_files
      received_lines_def files_of_def)

lemma message_count_peer_link: "message_count (peer_link nid a x conns) k = message_count conns k"
  by (cases x) (auto simp: peer_link_def Let_def message_count_def map_of_snoc Connection_def
      split: option.splits if_splits)

lemma message_count_fold_peer_link:
  "message_count (fold (peer_link nid a) xs conns) k = message_count conns k"
  by (induction xs arbitrary: conns) (simp_all add: message_count_peer_link)

lemma message_count_tunnel_link:
  "message_count (tunnel_link nid a t x conns) k = message_count conns k"
  by (cases x) (auto simp: tunnel_link_def Let_def message_count_def map_of_snoc Connection_def
      map_of_map_entry_eq split: option.splits if_splits)

lemma message_count_fold_tunnel_link:
  "message_count (fold (tunnel_link nid a t) xs conns) k = message_count conns k"
  by (induction xs arbitrary: conns) (simp_all add: message_count_tunnel_link)

lemma message_count_sent_link:
  "message_count (connections st) k \<le> message_count (connections (sent_link e ts nid a c x st)) k"
  by (cases x) (auto simp: sent_link_def Let_def message_count_def map_of_map_entry_eq
      split: option.splits)

lemma message_count_fold_sent_link:
  "message_count (connections st) k
     \<le> message_count (connections (fold (sent_link e ts nid a c) xs st)) k"
proof (induction xs arbitrary: st)
  case Nil
  then show ?case by simp
next
  case (Cons x xs)
  have "message_count (connections st) k
          \<le> message_count (connections (sent_link e ts nid a c x st)) k"
    by (rule message_count_sent_link)
  also have "\<dots> \<le> message_count
      (connections (fold (sent_link e ts nid a c) xs (sent_link e ts nid a c x st))) k"
    by (rule Cons.IH)
  finally show ?case by simp
qed

lemma message_count_process_line:
  "message_count (connections st) k \<le> message_count (connections (process_line e nid line st)) k"
proof (cases "match_line line")
  case (MessageSent a c)
  have "message_count (connections st) k
          \<le> message_count (connections (message_sent e (line_timestamp e line) nid a c st)) k"
    unfolding message_sent_def Let_def
    using message_count_fold_sent_link
      [of "st\<lparr>nodes := AList.map_entry nid
            (\<lambda>n. n\<lparr>messages_sent := messages_sent n + 1\<rparr>) (nodes st)\<rparr>" k e
          "line_timestamp e line" nid a c]
    by simp
  with MessageSent show ?thesis
    by (simp add: process_line_match)
qed (simp_all add: process_line_match peer_connected_def tunnel_created_def Let_def
      message_count_fold_peer_link message_count_fold_tunnel_link)

lemma message_count_fold_lines:
  "message_count (connections st) k
     \<le> message_count (connections (fold (process_line e nid) ls st)) k"
proof (induction ls arbitrary: st)
  case Nil
  then show ?case by simp
next
  case (Cons l ls)
  have "message_count (connections st) k
          \<le> message_count (connections (process_line e nid l st)) k"
    by (rule message_count_process_line)
  also have "\<dots> \<le> message_count
      (connections (fold (process_line e nid) ls (process_line e nid l st))) k"
    by (rule Cons.IH)
  finally show ?case by simp
qed

lemma message_count_parse_file:
  "message_count (connections st) k \<le> message_count (connections (parse_file e f st)) k"
  using message_count_fold_lines [of "opened f st" k e] by (simp add: parse_file_opened)

lemma message_count_fold_files:
  "message_count (connections st) k
     \<le> message_count (connections (fold (parse_file e) fs st)) k"
proof (induction fs arbitrary: st)
  case Nil
  then show ?case by simp
next
  case (Cons f fs)
  have "message_count (connections st) k \<le> message_count (connections (parse_file e f st)) k"
    by (rule message_count_parse_file)
  also have "\<dots> \<le> message_count
      (connections (fold (parse_file e) fs (parse_file e f st))) k"
    by (rule Cons.IH)
  finally show ?case by simp
qed

lemma message_count_parse_logs:
  "message_count (connections st) k
     \<le> message_count (connections (parse_logs e listing st)) k"
  by (simp add: parse_logs_def Let_def message_count_fold_files)

subsection \<open>An owner that is known later\<close>

lemma address_of_process_line:
  assumes "nid \<in> set (node_ids st)"
  shows "address_of (process_line e nid line st) k =
           (case match_line line of
              NodeInitialized a \<Rightarrow> if k = nid then Some a else address_of st k
            | _ \<Rightarrow> address_of st k)"
proof -
  obtain n where n: "map_of (nodes st) nid = Some n"
    using map_of_in_keys [of nid "nodes st"] assms by (auto simp: node_ids_def)
  show ?thesis
    by (cases "match_line line")
       (simp_all add: process_line_match address_of_def nodes_block map_of_map_entry_eq n)
qed

lemma in_advertisers: "address_of st b = Some a \<Longrightarrow> b \<in> set (advertisers a st)"
proof -
  assume "address_of st b = Some a"
  then obtain n where "map_of (nodes st) b = Some n" and "address n = Some a"
    by (auto simp: address_of_def split: option.splits)
  then have "(b, n) \<in> set (filter (\<lambda>(k, n). address n = Some a) (nodes st))"
    by (auto dest: map_of_SomeD)
  then have "fst (b, n) \<in> fst ` set (filter (\<lambda>(k, n). address n = Some a) (nodes st))"
    by (rule imageI)
  then show ?thesis
    by (simp add: advertisers_def)
qed

lemma conn_keys_node_initialized [simp]:
  "conn_keys (node_initialized nid a st) = conn_keys st"
  by (simp add: conn_keys_def)

lemma conn_keys_message_received [simp]: "conn_keys (message_received nid st) = conn_keys st"
  by (simp add: conn_keys_def)

lemma conn_keys_grow_line:
  "set (conn_keys st) \<subseteq> set (conn_keys (process_line e nid line st))"
proof (cases "match_line line")
  case (PeerConnected a)
  then show ?thesis
    by (auto simp: process_line_match conn_keys_peer_connected simp del: set_map)
next
  case (TunnelCreated a t)
  then show ?thesis
    by (auto simp: process_line_match conn_keys_tunnel_created simp del: set_map)
qed (simp_all add: process_line_match conn_keys_message_sent)

lemma conn_keys_grow_lines:
  "set (conn_keys st) \<subseteq> set (conn_keys (fold (process_line e nid) ls st))"
proof (induction ls arbitrary: st)
  case Nil
  then show ?case by simp
next
  case (Cons l ls)
  from conn_keys_grow_line [of st e nid l] Cons.IH [of "process_line e nid l st"]
  show ?case by auto
qed

lemma conn_keys_opened [simp]: "conn_keys (opened f st) = conn_keys st"
  by (simp add: conn_keys_def)

lemma conn_keys_grow_file: "set (conn_keys st) \<subseteq> set (conn_keys (parse_file e f st))"
  using conn_keys_grow_lines [of "opened f st" e] by (simp add: parse_file_opened)

lemma conn_keys_grow_files:
  "set (conn_keys st) \<subseteq> set (conn_keys (fold (parse_file e) fs st))"
proof (induction fs arbitrary: st)
  case Nil
  then show ?case by simp
next
  case (Cons f fs)
  from conn_keys_grow_file [of st e f] Cons.IH [of "parse_file e f st"]
  show ?case by auto
qed

lemma conn_keys_parse_logs:
  "conn_keys (parse_logs e listing st)
     = conn_keys (fold (parse_file e) (filter (\<lambda>f. endswith ''.log'' (fname f)) listing) st)"
  by (simp add: parse_logs_def Let_def conn_keys_def)

subsection \<open>The address that is stored\<close>

lemma address_after_Nil [simp]: "address_after [] cur = cur"
  by (simp add: address_after_def)

lemma address_after_append:
  "address_after (xs @ ys) cur = address_after ys (address_after xs cur)"
  by (simp add: address_after_def)

lemma address_after_Cons:
  "address_after (l # ls) cur =
     address_after ls (case match_line l of NodeInitialized a \<Rightarrow> Some a | _ \<Rightarrow> cur)"
  by (simp add: address_after_def)

lemma address_of_opened_eq: "address_of (opened f st) b = address_of st b"
  by (auto simp: opened_def Let_def address_of_def map_of_map_entry_eq map_of_snoc Node_def
      split: option.splits)

lemma address_of_fold_lines:
  "nid \<in> set (node_ids st) \<Longrightarrow>
     address_of (fold (process_line e nid) ls st) b =
       (if b = nid then address_after ls (address_of st b) else address_of st b)"
proof (induction ls arbitrary: st)
  case Nil
  then show ?case by (simp add: address_after_def)
next
  case (Cons l ls)
  have "nid \<in> set (node_ids (process_line e nid l st))"
    using Cons.prems by simp
  from Cons.IH [OF this] show ?case
    by (cases "match_line l")
       (simp_all add: address_of_process_line [OF Cons.prems] address_after_Cons)
qed

lemma address_of_parse_file:
  "address_of (parse_file e f st) b =
     (if parse_node_id_from_filename (fname f) = b
      then address_after (flines f) (address_of st b) else address_of st b)"
  by (auto simp: parse_file_opened address_of_fold_lines node_ids_opened address_of_opened_eq)

lemma address_of_fold_files:
  "address_of (fold (parse_file e) fs st) b =
     address_after
       (concat (map flines (filter (\<lambda>g. parse_node_id_from_filename (fname g) = b) fs)))
       (address_of st b)"
  by (induction fs arbitrary: st)
     (simp_all add: address_of_parse_file address_after_append)

lemma address_of_at_line:
  "address_of (fold (process_line e (parse_node_id_from_filename (fname f))) ls1
       (opened f (fold (parse_file e) fs1 st))) b
     = address_after (lines_before b fs1 f ls1) (address_of st b)"
  by (simp add: address_of_fold_lines node_ids_opened address_of_opened_eq
      address_of_fold_files lines_before_def address_after_append)

subsection \<open>The record that a peer-connected line creates\<close>

lemma peer_link_created:
  "map_of conns (nid, b) = None \<or> map_of conns (nid, b) = Some (Connection nid b) \<Longrightarrow>
     map_of (peer_link nid a x conns) (nid, b) = None
     \<or> map_of (peer_link nid a x conns) (nid, b) = Some (Connection nid b)"
  by (cases x) (auto simp: peer_link_def Let_def map_of_snoc simp del: map_of_append)

lemma peer_link_creates:
  "map_of conns (nid, b) = None \<or> map_of conns (nid, b) = Some (Connection nid b) \<Longrightarrow>
     address n = Some a \<Longrightarrow>
     map_of (peer_link nid a (b, n) conns) (nid, b) = Some (Connection nid b)"
  by (auto simp: peer_link_def Let_def map_of_snoc simp del: map_of_append)

lemma fold_peer_link_creates:
  assumes "map_of conns (nid, b) = None \<or> map_of conns (nid, b) = Some (Connection nid b)"
    and "(b, n) \<in> set xs" and "address n = Some a"
  shows "map_of (fold (peer_link nid a) xs conns) (nid, b) = Some (Connection nid b)"
  using assms
proof (induction xs arbitrary: conns)
  case Nil
  then show ?case by simp
next
  case (Cons x xs)
  show ?case
  proof (cases "x = (b, n)")
    case True
    have "map_of (peer_link nid a x conns) (nid, b) = Some (Connection nid b)"
      unfolding True using Cons.prems(1,3) by (rule peer_link_creates)
    then show ?thesis
      by (simp add: map_of_fold_peer_link)
  next
    case False
    with Cons.prems have "(b, n) \<in> set xs" by simp
    moreover have "map_of (peer_link nid a x conns) (nid, b) = None
        \<or> map_of (peer_link nid a x conns) (nid, b) = Some (Connection nid b)"
      using Cons.prems(1) by (rule peer_link_created)
    ultimately show ?thesis
      using Cons.IH Cons.prems(3) by simp
  qed
qed

lemma address_of_peers_update:
  "address_of (st\<lparr>nodes := AList.map_entry nid (\<lambda>n. n\<lparr>peers := insert a (peers n)\<rparr>)
     (nodes st)\<rparr>) b = address_of st b"
  by (auto simp: address_of_def map_of_map_entry_eq split: option.splits)

lemma peer_connected_creates:
  assumes "address_of st b = Some a" and "map_of (connections st) (nid, b) = None"
  shows "map_of (connections (peer_connected nid a st)) (nid, b) = Some (Connection nid b)"
proof -
  let ?ns = "AList.map_entry nid (\<lambda>n. n\<lparr>peers := insert a (peers n)\<rparr>) (nodes st)"
  have "address_of (st\<lparr>nodes := ?ns\<rparr>) b = Some a"
    using assms(1) by (simp add: address_of_peers_update)
  then obtain n where "map_of ?ns b = Some n" and n: "address n = Some a"
    by (auto simp: address_of_def split: option.splits)
  then have "(b, n) \<in> set ?ns"
    by (auto dest: map_of_SomeD)
  with assms(2) n show ?thesis
    by (simp add: peer_connected_def Let_def fold_peer_link_creates)
qed

lemma peer_connected_present:
  assumes "address_of st b = Some a"
  shows "(nid, b) \<in> set (conn_keys (peer_connected nid a st))"
  using in_advertisers [OF assms] by (simp add: conn_keys_peer_connected del: set_map)

subsection \<open>Records keep their two nodes\<close>

lemma keyed_peer_link: "keyed k conns \<Longrightarrow> keyed k (peer_link nid a x conns)"
  by (cases x) (auto simp: keyed_def peer_link_def Let_def map_of_snoc Connection_def
      split: option.splits if_splits)

lemma keyed_tunnel_link: "keyed k conns \<Longrightarrow> keyed k (tunnel_link nid a t x conns)"
  by (cases x) (auto simp: keyed_def tunnel_link_def Let_def map_of_snoc Connection_def
      map_of_map_entry_eq split: option.splits if_splits)

lemma keyed_sent_link:
  "keyed k (connections st) \<Longrightarrow> keyed k (connections (sent_link e ts nid a c x st))"
  by (cases x) (auto simp: keyed_def sent_link_def Let_def map_of_map_entry_eq
      split: option.splits if_splits)

lemma keyed_fold_peer_link: "keyed k conns \<Longrightarrow> keyed k (fold (peer_link nid a) xs conns)"
  by (induction xs arbitrary: conns) (simp_all add: keyed_peer_link)

lemma keyed_fold_tunnel_link:
  "keyed k conns \<Longrightarrow> keyed k (fold (tunnel_link nid a t) xs conns)"
  by (induction xs arbitrary: conns) (simp_all add: keyed_tunnel_link)

lemma keyed_fold_sent_link:
  "keyed k (connections st) \<Longrightarrow>
     keyed k (connections (fold (sent_link e ts nid a c) xs st))"
  by (induction xs arbitrary: st) (simp_all add: keyed_sent_link)

lemma keyed_process_line:
  "keyed k (connections st) \<Longrightarrow> keyed k (connections (process_line e nid line st))"
  by (cases "match_line line")
     (simp_all add: process_line_match peer_connected_def tunnel_created_def message_sent_def
        Let_def keyed_fold_peer_link keyed_fold_tunnel_link keyed_fold_sent_link)

lemma keyed_fold_lines:
  "keyed k (connections st) \<Longrightarrow> keyed k (connections (fold (process_line e nid) ls st))"
  by (induction ls arbitrary: st) (simp_all add: keyed_process_line)

lemma keyed_parse_file:
  "keyed k (connections st) \<Longrightarrow> keyed k (connections (parse_file e f st))"
  by (simp add: parse_file_opened keyed_fold_lines)

lemma keyed_fold_files:
  "keyed k (connections st) \<Longrightarrow> keyed k (connections (fold (parse_file e) fs st))"
  by (induction fs arbitrary: st) (simp_all add: keyed_parse_file)

subsection \<open>A pass raises nothing\<close>

lemma process_line_checked_known:
  "nid \<in> set (node_ids st) \<Longrightarrow>
     process_line_checked e nid line st = Inr (process_line e nid line st)"
  by (cases "match_line line")
     (auto simp: process_line_checked_def node_ids_def map_of_None_iff process_line_match
        simp del: set_map)

lemma fold_checked_lines:
  "nid \<in> set (node_ids st) \<Longrightarrow>
     fold_checked (process_line_checked e nid) ls st = Inr (fold (process_line e nid) ls st)"
  by (induction ls arbitrary: st) (simp_all add: process_line_checked_known)

lemma parse_file_checked_eq: "parse_file_checked e f st = Inr (parse_file e f st)"
  by (simp add: parse_file_checked_def parse_file_opened fold_checked_lines node_ids_opened)

lemma fold_checked_files:
  "fold_checked (parse_file_checked e) fs st = Inr (fold (parse_file e) fs st)"
  by (induction fs arbitrary: st) (simp_all add: parse_file_checked_eq)

lemma parse_logs_checked_eq: "parse_logs_checked e listing st = Inr (parse_logs e listing st)"
  by (simp add: parse_logs_checked_def parse_logs_def Let_def fold_checked_files)

lemma connections_parse_logs:
  "connections (parse_logs e listing st)
     = connections (fold (parse_file e) (filter (\<lambda>f. endswith ''.log'' (fname f)) listing) st)"
  by (simp add: parse_logs_def Let_def)

lemma link_at_line:
  assumes "flines f = ls1 @ l # ls2" and "match_line l = PeerConnected a"
    and "address_after (lines_before b fs1 f ls1) (address_of st b) = Some a"
  shows "(parse_node_id_from_filename (fname f), b)
           \<in> set (conn_keys (fold (parse_file e) (fs1 @ f # fs2) st))"
proof -
  let ?n = "parse_node_id_from_filename (fname f)"
  let ?mid = "fold (process_line e ?n) ls1 (opened f (fold (parse_file e) fs1 st))"
  have "address_of ?mid b = Some a"
    using assms(3) by (simp only: address_of_at_line)
  then have "(?n, b) \<in> set (conn_keys (process_line e ?n l ?mid))"
    using assms(2) by (simp add: process_line_match peer_connected_present)
  then have "(?n, b) \<in> set (conn_keys (fold (process_line e ?n) ls2 (process_line e ?n l ?mid)))"
    using conn_keys_grow_lines by blast
  then have "(?n, b) \<in> set (conn_keys (parse_file e f (fold (parse_file e) fs1 st)))"
    by (simp add: parse_file_opened assms(1))
  then have "(?n, b) \<in> set (conn_keys
      (fold (parse_file e) fs2 (parse_file e f (fold (parse_file e) fs1 st))))"
    using conn_keys_grow_files by blast
  then show ?thesis by simp
qed

subsection \<open>Insertion keeps the last hundred\<close>

lemma append_message_drop:
  "length msgs \<le> 100 \<Longrightarrow>
     append_message m msgs = drop (length (msgs @ [m]) - 100) (msgs @ [m])"
proof -
  assume le: "length msgs \<le> 100"
  show ?thesis
  proof (cases "length msgs = 100")
    case True
    then have "length (msgs @ [m]) - 100 = Suc 0" and "msgs \<noteq> []" by auto
    with True show ?thesis
      by (simp add: append_message_def Let_def drop_Suc)
  next
    case False
    with le show ?thesis
      by (simp add: append_message_def Let_def)
  qed
qed

lemma fold_append_message_drop:
  "length msgs \<le> 100 \<Longrightarrow>
     fold append_message xs msgs = drop (length (msgs @ xs) - 100) (msgs @ xs)"
proof (induction xs arbitrary: msgs)
  case Nil
  then show ?case by simp
next
  case (Cons x xs)
  let ?d = "length (msgs @ [x]) - 100"
  have am: "append_message x msgs = drop ?d (msgs @ [x])"
    using Cons.prems by (rule append_message_drop)
  have len: "length (append_message x msgs) \<le> 100"
    using Cons.prems by (rule length_append_message)
  have d: "?d \<le> length (msgs @ [x])"
    by simp
  have "fold append_message (x # xs) msgs = fold append_message xs (append_message x msgs)"
    by simp
  also have "\<dots> = drop (length (append_message x msgs @ xs) - 100) (append_message x msgs @ xs)"
    using len by (rule Cons.IH)
  also have "append_message x msgs @ xs = drop ?d (msgs @ x # xs)"
    using d by (simp add: am)
  also have "drop (length (drop ?d (msgs @ x # xs)) - 100) (drop ?d (msgs @ x # xs))
               = drop (length (msgs @ x # xs) - 100) (msgs @ x # xs)"
    using Cons.prems by (cases "length msgs = 100") (simp_all add: drop_Suc)
  finally show ?case .
qed

lemma tunnels_of_tunnel_created:
  "nid \<in> set (node_ids st) \<Longrightarrow>
     tunnels_of (tunnel_created nid a t st) nid = insert a (tunnels_of st nid)"
  using map_of_in_keys [of nid "nodes st"]
  by (auto simp: tunnels_of_def node_ids_def nodes_tunnel_created map_of_map_entry_eq
      simp del: set_map)

lemma advertisers_peer_connected [simp]:
  "advertisers b (peer_connected nid a st) = advertisers b st"
  by (simp add: advertisers_def nodes_peer_connected filter_map_entry_address)

lemma advertisers_tunnel_created [simp]:
  "advertisers b (tunnel_created nid a t st) = advertisers b st"
  by (simp add: advertisers_def nodes_tunnel_created filter_map_entry_address)

lemma node_ids_peer_connected [simp]: "node_ids (peer_connected nid a st) = node_ids st"
  by (simp add: node_ids_def nodes_peer_connected map_fst_map_entry)

lemma node_ids_tunnel_created [simp]: "node_ids (tunnel_created nid a t st) = node_ids st"
  by (simp add: node_ids_def nodes_tunnel_created map_fst_map_entry)

text \<open>A line whose records are all there changes neither nodes nor keys.\<close>

lemma peer_connected_again:
  assumes "nid \<in> set (node_ids st)" and "a \<in> peers_of st nid"
    and "\<forall>k \<in> set (advertisers a st). (nid, k) \<in> set (conn_keys st)"
  shows "peer_connected nid a st = st"
proof -
  obtain n where n: "map_of (nodes st) nid = Some n"
    using map_of_in_keys [of nid "nodes st"] assms(1) by (auto simp: node_ids_def)
  have adv: "\<forall>k \<in> set (map fst (filter (\<lambda>(k, n). address n = Some a) (nodes st))).
               (nid, k) \<in> set (map fst (connections st))"
    using assms(3) by (simp add: advertisers_def conn_keys_def)
  from assms(2) have "insert a (peers n) = peers n"
    using n by (auto simp: peers_of_def)
  then have nodes:
    "AList.map_entry nid (\<lambda>n. n\<lparr>peers := insert a (peers n)\<rparr>) (nodes st) = nodes st"
    using n by (intro map_entry_id) simp
  show ?thesis
    using adv by (simp add: peer_connected_def Let_def nodes fold_peer_link_present)
qed

lemma tunnel_created_again:
  assumes "nid \<in> set (node_ids st)" and "a \<in> tunnels_of st nid"
    and "\<forall>k \<in> set (advertisers a st). (nid, k) \<in> set (conn_keys st)"
  shows "nodes (tunnel_created nid a t st) = nodes st
       \<and> conn_keys (tunnel_created nid a t st) = conn_keys st"
proof -
  obtain n where n: "map_of (nodes st) nid = Some n"
    using map_of_in_keys [of nid "nodes st"] assms(1) by (auto simp: node_ids_def)
  have adv: "\<forall>k \<in> set (map fst (filter (\<lambda>(k, n). address n = Some a) (nodes st))).
               (nid, k) \<in> set (map fst (connections st))"
    using assms(3) by (simp add: advertisers_def conn_keys_def)
  from assms(2) have "insert a (tunnels n) = tunnels n"
    using n by (auto simp: tunnels_of_def)
  then have nodes:
    "AList.map_entry nid (\<lambda>n. n\<lparr>tunnels := insert a (tunnels n)\<rparr>) (nodes st) = nodes st"
    using n by (intro map_entry_id) simp
  have conns: "connections (tunnel_created nid a t st)
                 = fold (tunnel_link nid a t) (nodes st) (connections st)"
    by (simp add: tunnel_created_def Let_def nodes)
  have "map fst (connections (tunnel_created nid a t st)) = map fst (connections st)"
    unfolding conns using adv by (rule keys_fold_tunnel_link_present)
  with nodes show ?thesis
    by (simp add: nodes_tunnel_created conn_keys_def)
qed

lemma tunnel_only_peer_connected:
  "map_of (connections st) k = Some c \<Longrightarrow>
     map_of (connections (peer_connected nid a st)) k = Some c"
  by (simp add: peer_connected_def Let_def map_of_fold_peer_link)

lemma tunnel_only_tunnel_created:
  "map_of (connections st) k = Some c \<Longrightarrow>
     \<exists>tt. map_of (connections (tunnel_created nid a t st)) k = Some (c\<lparr>tunnel_type := tt\<rparr>)"
  by (simp add: tunnel_created_def Let_def map_of_fold_tunnel_link)

subsection \<open>One record for each ordered pair, through every pass\<close>

lemma distinct_fold_lines:
  "distinct (conn_keys st) \<Longrightarrow> distinct (conn_keys (fold (process_line e nid) ls st))"
  by (induction ls arbitrary: st) (simp_all add: distinct_process_line)

lemma distinct_parse_file:
  "distinct (conn_keys st) \<Longrightarrow> distinct (conn_keys (parse_file e f st))"
  by (simp add: parse_file_opened distinct_fold_lines)

lemma distinct_fold_files:
  "distinct (conn_keys st) \<Longrightarrow> distinct (conn_keys (fold (parse_file e) fs st))"
  by (induction fs arbitrary: st) (simp_all add: distinct_parse_file)

lemma distinct_parse_logs:
  "distinct (conn_keys st) \<Longrightarrow> distinct (conn_keys (parse_logs e listing st))"
  by (simp add: conn_keys_parse_logs distinct_fold_files)

lemma distinct_passes:
  "distinct (conn_keys st) \<Longrightarrow> distinct (conn_keys (passes ps st))"
  unfolding passes_def
  by (induction ps arbitrary: st) (auto simp: distinct_parse_logs)

section \<open>The claims\<close>

text \<open>
  C1, as amended. A pass reads every source from its first line, so a line is counted once
  in each pass and not once overall: a pass adds to the \<^verbatim>\<open>messages_sent\<close>
  (\<^verbatim>\<open>messages_received\<close>) of a node the number of message-sent (message-received)
  lines of its sources, also when nothing was appended since the pass before, and the
  message count of a connection never decreases. After a second pass over the same
  sources the counters of a node are those after the first pass plus these numbers, so
  they are the same only for a node whose sources have no such line.
\<close>

theorem counters_grow_by_pass:
  "sent_of (parse_logs e listing st) n = sent_of st n + sent_lines n listing
 \<and> received_of (parse_logs e listing st) n = received_of st n + received_lines n listing
 \<and> message_count (connections st) k \<le> message_count (connections (parse_logs e listing st)) k
 \<and> sent_of (passes [(e, listing), (e', listing)] st) n
     = sent_of (passes [(e, listing)] st) n + sent_lines n listing
 \<and> received_of (passes [(e, listing), (e', listing)] st) n
     = received_of (passes [(e, listing)] st) n + received_lines n listing
 \<and> message_count (connections (passes [(e, listing)] st)) k
     \<le> message_count (connections (passes [(e, listing), (e', listing)] st)) k
 \<and> (sent_of (passes [(e, listing), (e', listing)] st) n = sent_of (passes [(e, listing)] st) n)
     = (sent_lines n listing = 0)
 \<and> (received_of (passes [(e, listing), (e', listing)] st) n
       = received_of (passes [(e, listing)] st) n)
     = (received_lines n listing = 0)"
  by (simp add: passes_def sent_of_parse_logs received_of_parse_logs message_count_parse_logs)

text \<open>The theorem at two passes over the logs of A and B: the sent counter of A goes to 2.\<close>

theorem counters_grow_by_pass_witness:
  "sent_lines ''A'' traffic_listing = 1
 \<and> sent_of (passes [(env_at 100, traffic_listing)] empty_store) ''A'' = 1
 \<and> sent_of (passes [(env_at 100, traffic_listing), (env_at 102, traffic_listing)]
      empty_store) ''A'' = 2"
proof -
  have s: "sent_lines ''A'' traffic_listing = 1"
    by code_simp
  have p: "sent_of (passes [(env_at 100, traffic_listing)] empty_store) ''A'' = 1"
    by code_simp
  from counters_grow_by_pass [where e = "env_at 100" and e' = "env_at 102"
      and listing = traffic_listing and st = empty_store and n = "''A''"
      and k = "(''A'', ''B'')"] s p
  show ?thesis by simp
qed

text \<open>
  C1 as stated fails: with no new content between two passes, the three counters are 1
  after the first pass and 2 after the second.
\<close>

theorem repeated_pass_counterexample:
  "sent_of (passes [(env_at 100, traffic_listing)] empty_store) ''A'' = 1
 \<and> sent_of (passes [(env_at 100, traffic_listing), (env_at 102, traffic_listing)]
      empty_store) ''A'' = 2
 \<and> received_of (passes [(env_at 100, traffic_listing)] empty_store) ''B'' = 1
 \<and> received_of (passes [(env_at 100, traffic_listing), (env_at 102, traffic_listing)]
      empty_store) ''B'' = 2
 \<and> message_count (connections (passes [(env_at 100, traffic_listing)] empty_store))
      (''A'', ''B'') = 1
 \<and> message_count (connections (passes [(env_at 100, traffic_listing),
      (env_at 102, traffic_listing)] empty_store)) (''A'', ''B'') = 2"
  by code_simp

text \<open>
  C2, as amended. After one pass over the two sources with \<^verbatim>\<open>B.log\<close> listed first,
  node A has \<^verbatim>\<open>messages_sent = 1\<close> and the message sequence is the single record
  (A, B, hello), stamped with the clock; no connection record exists, since a message-sent
  line only counts on a record that is already there and never creates one.
\<close>

theorem scenario_one_pass:
  "sent_of (parse_logs e [B_log, A_log] empty_store) ''A'' = 1
 \<and> connections (parse_logs e [B_log, A_log] empty_store) = []
 \<and> messages (parse_logs e [B_log, A_log] empty_store)
     = [Message ''A'' ''B'' ''hello'' (Clock (time_now e))]"
  by (simp add: parse_logs_def parse_file_def Let_def A_log_def B_log_def log_file_def
      scenario_names empty_store_def Node_def process_line_match scenario_lines
      node_initialized_def message_sent_def sent_link_def line_timestamp_def
      append_message_def sent_of_def)

text \<open>
  C2 as stated fails: after the pass there is no connection record at all, in either
  order of the two files.
\<close>

theorem scenario_counterexample:
  "connections (parse_logs (env_at 100) [B_log, A_log] empty_store) = []
 \<and> connections (parse_logs (env_at 100) [A_log, B_log] empty_store) = []"
  by code_simp

text \<open>
  C3, at the identity \<^verbatim>\<open>cross-federation-bridge-ab\<close>. The claim gives it the
  composite label of federation-a and federation-b. The identity contains
  \<^verbatim>\<open>federation-b\<close> (the first letters of \<^verbatim>\<open>federation-bridge\<close>), so the second
  test of the classifier answers before the bridge branch is reached, and the label is
  \<^verbatim>\<open>federation-b\<close>. An identity that no marker test catches, such as
  \<^verbatim>\<open>cross-federation-link-ab\<close>, does reach the branch and gets the composite label.
\<close>

theorem federation_bridge_ab:
  "parse_federation_from_node_id ''cross-federation-bridge-ab'' = Some ''federation-b''
 \<and> parse_federation_from_node_id ''cross-federation-link-ab''
     = Some ''federation-a+federation-b''"
  by code_simp

text \<open>
  C4, as amended: the last observation wins. A node-initialized line processed for a
  known node sets the stored address of that node to the address on the line, whatever
  address was stored before, and leaves the addresses of the other nodes alone.
\<close>

theorem node_initialized_last_wins:
  assumes "match_line line = NodeInitialized a" and "nid \<in> set (node_ids st)"
  shows "address_of (process_line e nid line st) nid = Some a
       \<and> (\<forall>k. k \<noteq> nid \<longrightarrow> address_of (process_line e nid line st) k = address_of st k)"
  using assms by (simp add: process_line_match address_of_node_initialized)

text \<open>
  The theorem at the second line of a log that gives two addresses: the store holds
  \<^verbatim>\<open>addr-1\<close> from the first line, and the second line replaces it.
\<close>

theorem node_initialized_last_wins_witness:
  "match_line (log_line ''Node initialized with overlay address: addr-2'')
     = NodeInitialized ''addr-2''
 \<and> address_of (parse_logs (env_at 100) [once_init_log] empty_store) ''A'' = Some ''addr-1''
 \<and> address_of (process_line (env_at 100) ''A''
      (log_line ''Node initialized with overlay address: addr-2'')
      (parse_logs (env_at 100) [once_init_log] empty_store)) ''A'' = Some ''addr-2''"
proof -
  have m: "match_line (log_line ''Node initialized with overlay address: addr-2'')
             = NodeInitialized ''addr-2''"
    by code_simp
  have k: "''A'' \<in> set (node_ids (parse_logs (env_at 100) [once_init_log] empty_store))"
    by code_simp
  have a: "address_of (parse_logs (env_at 100) [once_init_log] empty_store) ''A''
             = Some ''addr-1''"
    by code_simp
  from node_initialized_last_wins [OF m k, of "env_at 100"] m a show ?thesis by blast
qed

text \<open>
  C4 as stated fails: after a pass over a log with two node-initialized lines the stored
  address is the second one, not the first.
\<close>

theorem first_writer_counterexample:
  "address_of (parse_logs (env_at 100) [once_init_log] empty_store) ''A'' = Some ''addr-1''
 \<and> address_of (parse_logs (env_at 100) [twice_init_log] empty_store) ''A'' = Some ''addr-2''"
  by code_simp

text \<open>
  C5, as amended. An event that carries a target address links every known node whose
  stored address is the target, not only a unique one: a peer-connected or tunnel-created
  line makes the connection keys those of before and the pairs (node, advertiser), and a
  message-sent line appends one message per advertiser, in the order of the nodes,
  without adding a connection key. With no advertiser the line leaves connections and
  messages as they were.
\<close>

theorem linkage_for_every_advertiser:
  assumes "nid \<in> set (node_ids st)"
  shows "(match_line line = PeerConnected a \<longrightarrow>
            set (conn_keys (process_line e nid line st))
              = set (conn_keys st) \<union> {(nid, k) |k. k \<in> set (advertisers a st)}
          \<and> messages (process_line e nid line st) = messages st)
       \<and> (match_line line = TunnelCreated a t \<longrightarrow>
            set (conn_keys (process_line e nid line st))
              = set (conn_keys st) \<union> {(nid, k) |k. k \<in> set (advertisers a st)}
          \<and> messages (process_line e nid line st) = messages st)
       \<and> (match_line line = MessageSent a c \<longrightarrow>
            conn_keys (process_line e nid line st) = conn_keys st
          \<and> messages (process_line e nid line st)
              = fold append_message
                  (map (\<lambda>k. Message nid k c (stamp_of e (line_timestamp e line)))
                     (advertisers a st))
                  (messages st))
       \<and> (advertisers a st = []
            \<and> match_line line \<in> {PeerConnected a, TunnelCreated a t, MessageSent a c} \<longrightarrow>
            connections (process_line e nid line st) = connections st
          \<and> messages (process_line e nid line st) = messages st)"
  by (auto simp: process_line_match conn_keys_peer_connected conn_keys_tunnel_created
      conn_keys_message_sent messages_message_sent connections_peer_connected_none
      connections_tunnel_created_none message_sent_none simp del: set_map)

text \<open>
  The theorem at a store where B and C both advertise \<^verbatim>\<open>addr-X\<close>: a peer-connected
  line of A creates the records (A, B) and (A, C).
\<close>

theorem linkage_for_every_advertiser_witness:
  "advertisers ''addr-X'' shared_address_store = [''B'', ''C'']
 \<and> conn_keys shared_address_store = []
 \<and> match_line (log_line ''Connected to peer: addr-X'') = PeerConnected ''addr-X''
 \<and> set (conn_keys (process_line (env_at 100) ''A'' (log_line ''Connected to peer: addr-X'')
           shared_address_store)) = {(''A'', ''B''), (''A'', ''C'')}"
proof -
  have k: "''A'' \<in> set (node_ids shared_address_store)"
    by code_simp
  have a: "advertisers ''addr-X'' shared_address_store = [''B'', ''C'']"
    by code_simp
  have c: "conn_keys shared_address_store = []"
    by code_simp
  have m: "match_line (log_line ''Connected to peer: addr-X'') = PeerConnected ''addr-X''"
    by code_simp
  from linkage_for_every_advertiser [OF k, where e = "env_at 100" and a = "''addr-X''"
      and line = "log_line ''Connected to peer: addr-X''" and t = "[]" and c = "[]"] a c m
  show ?thesis by auto
qed

text \<open>
  C5 as stated fails: with two nodes that advertise the target address, a pass creates a
  connection record for each of them instead of treating the event as unresolved.
\<close>

theorem shared_address_counterexample:
  "advertisers ''addr-X'' (parse_logs (env_at 100) shared_address_listing empty_store)
     = [''B'', ''C'']
 \<and> conn_keys (parse_logs (env_at 100) shared_address_listing empty_store)
     = [(''A'', ''B''), (''A'', ''C'')]"
  by code_simp

text \<open>
  C6: the message sequence never holds more than 100 records. A line, a pass, and any
  sequence of passes from the empty store keep the bound. A message-sent line processed
  for a known node changes the sequence of the store by the insertions alone: the new
  sequence is the last 100 records of the old one followed by one record per advertiser
  of the address, so with one advertiser the record is appended below capacity, and at
  capacity the oldest record is dropped and the others keep their order; every other
  line leaves the sequence as it is. An insertion is \<^verbatim>\<open>append\<close> followed by
  \<^verbatim>\<open>pop(0)\<close>, taken as one step: the monitor has a single thread and draws the
  store between passes only.
\<close>

theorem message_sequence_bounded:
  assumes "length (messages st) \<le> 100"
  shows "length (messages (parse_logs e listing st)) \<le> 100
       \<and> length (messages (passes ps (empty_store :: 'd store))) \<le> 100
       \<and> length (messages (process_line e nid line st)) \<le> 100
       \<and> (nid \<in> set (node_ids st) \<and> match_line line = MessageSent a c \<longrightarrow>
            messages (process_line e nid line st)
              = (let new = map (\<lambda>k. Message nid k c (stamp_of e (line_timestamp e line)))
                             (advertisers a st);
                     all = messages st @ new
                 in drop (length all - 100) all))
       \<and> (nid \<in> set (node_ids st) \<and> match_line line = MessageSent a c
            \<and> advertisers a st = [k] \<and> length (messages st) < 100 \<longrightarrow>
            messages (process_line e nid line st)
              = messages st @ [Message nid k c (stamp_of e (line_timestamp e line))])
       \<and> (nid \<in> set (node_ids st) \<and> match_line line = MessageSent a c
            \<and> advertisers a st = [k] \<and> length (messages st) = 100 \<longrightarrow>
            messages (process_line e nid line st)
              = tl (messages st) @ [Message nid k c (stamp_of e (line_timestamp e line))])
       \<and> (nid \<in> set (node_ids st) \<and> \<not> is_sent (match_line line) \<longrightarrow>
            messages (process_line e nid line st) = messages st)
       \<and> length (append_message m (messages st)) \<le> 100
       \<and> (length (messages st) < 100 \<longrightarrow> append_message m (messages st) = messages st @ [m])
       \<and> (length (messages st) = 100
            \<longrightarrow> append_message m (messages st) = tl (messages st) @ [m])"
proof -
  have ne: "length (messages st) = 100 \<Longrightarrow> messages st \<noteq> []" by auto
  have passes: "length (messages (passes ps (empty_store :: 'd store))) \<le> 100"
    by (rule length_passes) (simp add: empty_store_def)
  have sent: "match_line line = MessageSent a c \<longrightarrow>
      messages (process_line e nid line st)
        = (let new = map (\<lambda>k. Message nid k c (stamp_of e (line_timestamp e line)))
                       (advertisers a st);
               all = messages st @ new
           in drop (length all - 100) all)"
    using assms
    by (simp add: process_line_match messages_message_sent fold_append_message_drop Let_def)
  have one: "match_line line = MessageSent a c \<and> advertisers a st = [k] \<longrightarrow>
      messages (process_line e nid line st)
        = append_message (Message nid k c (stamp_of e (line_timestamp e line))) (messages st)"
    by (simp add: process_line_match messages_message_sent)
  have other: "\<not> is_sent (match_line line) \<longrightarrow>
      messages (process_line e nid line st) = messages st"
    by (cases "match_line line") (simp_all add: process_line_match)
  have app: "length (messages st) < 100 \<longrightarrow> append_message m' (messages st) = messages st @ [m']"
    "length (messages st) = 100 \<longrightarrow> append_message m' (messages st) = tl (messages st) @ [m']"
    for m'
    using ne by (simp_all add: append_message_def Let_def)
  let ?M = "Message nid k c (stamp_of e (line_timestamp e line))"
  have below: "nid \<in> set (node_ids st) \<and> match_line line = MessageSent a c
      \<and> advertisers a st = [k] \<and> length (messages st) < 100 \<longrightarrow>
      messages (process_line e nid line st) = messages st @ [?M]"
    using one app(1) [of ?M] by auto
  have full: "nid \<in> set (node_ids st) \<and> match_line line = MessageSent a c
      \<and> advertisers a st = [k] \<and> length (messages st) = 100 \<longrightarrow>
      messages (process_line e nid line st) = tl (messages st) @ [?M]"
    using one app(2) [of ?M] by auto
  have bounds: "length (messages (parse_logs e listing st)) \<le> 100"
    "length (messages (process_line e nid line st)) \<le> 100"
    "length (append_message m (messages st)) \<le> 100"
    using assms by (simp_all add: length_parse_logs length_process_line length_append_message)
  from bounds passes sent below full other app [of m] show ?thesis
    by blast
qed

text \<open>
  The theorem at a store with a full sequence: the message-sent line of A, alone and in a
  pass over the scenario logs, evicts the oldest record and appends the new one.
\<close>

theorem message_sequence_bounded_witness:
  "length (messages full_scenario_store) = 100
 \<and> advertisers ''addr-B'' full_scenario_store = [''B'']
 \<and> match_line (log_line ''Sending msg to addr-B: hello'') = MessageSent ''addr-B'' ''hello''
 \<and> messages (process_line (env_at 102) ''A'' (log_line ''Sending msg to addr-B: hello'')
      full_scenario_store)
     = replicate 99 (Message ''A'' ''B'' ''newer'' (Clock 1))
       @ [Message ''A'' ''B'' ''hello'' (Clock 102)]
 \<and> length (messages (parse_logs (env_at 102) [B_log, A_log] full_scenario_store)) \<le> 100
 \<and> messages (parse_logs (env_at 102) [B_log, A_log] full_scenario_store)
     = replicate 99 (Message ''A'' ''B'' ''newer'' (Clock 1))
       @ [Message ''A'' ''B'' ''hello'' (Clock 102)]"
proof -
  have l: "length (messages full_scenario_store) = 100"
    by (simp add: full_scenario_store_def)
  then have h: "length (messages full_scenario_store) \<le> 100"
    by simp
  have t: "tl (messages full_scenario_store)
             = replicate 99 (Message ''A'' ''B'' ''newer'' (Clock 1))"
    by (simp add: full_scenario_store_def)
  have k: "''A'' \<in> set (node_ids full_scenario_store)"
    by code_simp
  have a: "advertisers ''addr-B'' full_scenario_store = [''B'']"
    by code_simp
  have m: "match_line (log_line ''Sending msg to addr-B: hello'')
             = MessageSent ''addr-B'' ''hello''"
    by code_simp
  have s: "stamp_of (env_at 102)
             (line_timestamp (env_at 102) (log_line ''Sending msg to addr-B: hello''))
             = Clock 102"
    by code_simp
  have p: "messages (parse_logs (env_at 102) [B_log, A_log] full_scenario_store)
             = replicate 99 (Message ''A'' ''B'' ''newer'' (Clock 1))
               @ [Message ''A'' ''B'' ''hello'' (Clock 102)]"
    by code_simp
  from message_sequence_bounded [OF h, where e = "env_at 102" and listing = "[B_log, A_log]"
      and ps = "[] :: (unit env \<times> logfile list) list" and nid = "''A''"
      and line = "log_line ''Sending msg to addr-B: hello''" and a = "''addr-B''"
      and c = "''hello''" and k = "''B''"
      and m = "Message ''A'' ''B'' ''new'' (Clock 2)"] l t k a m s p
  show ?thesis by (simp add: drop_Suc)
qed

text \<open>
  C7: with the gap \<open>g = now - last_seen\<close>, the status is offline exactly when
  \<open>g > 30\<close>, inactive exactly when \<open>10 < g \<le> 30\<close> and active exactly when
  \<open>g \<le> 10\<close>; a gap of 10 is active and a gap of 10.01 is inactive.
\<close>

theorem status_classifier:
  "(status (update_status now n) = ''offline'') = (now - last_seen n > 30)
 \<and> (status (update_status now n) = ''inactive'')
     = (10 < now - last_seen n \<and> now - last_seen n \<le> 30)
 \<and> (status (update_status now n) = ''active'') = (now - last_seen n \<le> 10)
 \<and> status (update_status (last_seen n + 10) n) = ''active''
 \<and> status (update_status (last_seen n + 1001 / 100) n) = ''inactive''"
  by (simp add: update_status_def)

text \<open>
  C8, as amended. A peer-connected line processed for a known node N adds the address
  written on the line to the peer set of N, whether or not a node owns the address; a
  connection record (N, P) exists afterwards exactly for the pairs that existed before
  and for every node P that advertises the address, and none is created when no node
  advertises it.
\<close>

theorem peer_connected_adds_address:
  assumes "match_line line = PeerConnected a" and "nid \<in> set (node_ids st)"
  shows "peers_of (process_line e nid line st) nid = insert a (peers_of st nid)
       \<and> (\<forall>k. ((nid, k) \<in> set (conn_keys (process_line e nid line st)))
               = ((nid, k) \<in> set (conn_keys st) \<or> k \<in> set (advertisers a st)))
       \<and> (advertisers a st = [] \<longrightarrow>
            connections (process_line e nid line st) = connections st)"
  using assms
  by (auto simp: process_line_match peers_of_peer_connected conn_keys_peer_connected
      connections_peer_connected_none simp del: set_map)

text \<open>The theorem at the first peer-connected line of A, with B the owner of the address.\<close>

theorem peer_connected_adds_address_witness:
  "match_line (log_line ''Connected to peer: addr-B'') = PeerConnected ''addr-B''
 \<and> peers_of idle_store ''A'' = {}
 \<and> advertisers ''addr-B'' idle_store = [''B'']
 \<and> peers_of (process_line (env_at 100) ''A'' (log_line ''Connected to peer: addr-B'')
      idle_store) ''A'' = {''addr-B''}
 \<and> (''A'', ''B'') \<in> set (conn_keys (process_line (env_at 100) ''A''
      (log_line ''Connected to peer: addr-B'') idle_store))"
proof -
  have k: "''A'' \<in> set (node_ids idle_store)"
    by code_simp
  have m: "match_line (log_line ''Connected to peer: addr-B'') = PeerConnected ''addr-B''"
    by code_simp
  have p: "peers_of idle_store ''A'' = {}"
    by code_simp
  have a: "advertisers ''addr-B'' idle_store = [''B'']"
    by code_simp
  from peer_connected_adds_address [OF m k, where e = "env_at 100"] m p a
  show ?thesis by simp
qed

text \<open>
  C8 as stated fails: resolution succeeds (the record (A, B) is created), and the peer
  set of A holds the address \<^verbatim>\<open>addr-B\<close>, not the node id \<^verbatim>\<open>B\<close>.
\<close>

theorem peer_set_counterexample:
  "conn_keys (parse_logs (env_at 100) peer_listing empty_store) = [(''A'', ''B'')]
 \<and> peers_of (parse_logs (env_at 100) peer_listing empty_store) ''A'' = {''addr-B''}
 \<and> ''B'' \<notin> peers_of (parse_logs (env_at 100) peer_listing empty_store) ''A''"
  by code_simp

text \<open>
  C9, as amended. A peer-connected line whose address no known node has stored leaves the
  connection records as they are and raises nothing, and no pass raises. It is not
  enough that a node-initialized line of the owner with the address was read: what
  counts is the address stored for the owner when the peer-connected line is read. A
  pass creates or keeps the record of the node of the file and \<open>b\<close> when, among the
  lines of the files of \<open>b\<close> read before the peer-connected line in that pass, the
  last node-initialized line carries the address, or there is none and the address was
  stored for \<open>b\<close> before the pass. A record that did not exist before the pass names
  the two nodes, and the line itself creates it as a fresh record.
\<close>

theorem peer_record_when_owner_stored:
  assumes "filter (\<lambda>g. endswith ''.log'' (fname g)) listing = fs1 @ f # fs2"
    and "flines f = ls1 @ l # ls2"
    and "match_line l = PeerConnected a"
    and "address_after (lines_before b fs1 f ls1) (address_of st b) = Some a"
  shows "(advertisers a st0 = [] \<and> nid \<in> set (node_ids st0) \<longrightarrow>
            process_line_checked e0 nid l st0 = Inr (process_line e0 nid l st0)
          \<and> connections (process_line e0 nid l st0) = connections st0)
       \<and> (address_of st0 b = Some a \<and> nid \<in> set (node_ids st0)
            \<and> map_of (connections st0) (nid, b) = None \<longrightarrow>
            map_of (connections (process_line e0 nid l st0)) (nid, b)
              = Some (Connection nid b))
       \<and> parse_logs_checked e listing st = Inr (parse_logs e listing st)
       \<and> (\<exists>c. map_of (connections (parse_logs e listing st))
                 (parse_node_id_from_filename (fname f), b) = Some c
              \<and> (map_of (connections st) (parse_node_id_from_filename (fname f), b) = None
                   \<longrightarrow> source c = parse_node_id_from_filename (fname f) \<and> dest c = b))"
proof -
  let ?k = "(parse_node_id_from_filename (fname f), b)"
  let ?end = "fold (parse_file e) (fs1 @ f # fs2) st"
  have unresolved: "advertisers a st0 = [] \<and> nid \<in> set (node_ids st0) \<longrightarrow>
      process_line_checked e0 nid l st0 = Inr (process_line e0 nid l st0)
      \<and> connections (process_line e0 nid l st0) = connections st0"
    using assms(3)
    by (simp add: process_line_checked_known process_line_match connections_peer_connected_none)
  have created: "address_of st0 b = Some a \<and> nid \<in> set (node_ids st0)
      \<and> map_of (connections st0) (nid, b) = None \<longrightarrow>
      map_of (connections (process_line e0 nid l st0)) (nid, b) = Some (Connection nid b)"
    using assms(3) by (simp add: process_line_match peer_connected_creates)
  have "?k \<in> set (conn_keys ?end)"
    using assms(2,3,4) by (rule link_at_line)
  then obtain c where c: "map_of (connections ?end) ?k = Some c"
    using map_of_in_keys [of ?k "connections ?end"] by (auto simp: conn_keys_def)
  have "map_of (connections st) ?k = None \<longrightarrow> source c = fst ?k \<and> dest c = snd ?k"
  proof
    assume "map_of (connections st) ?k = None"
    then have "keyed ?k (connections st)"
      by (simp add: keyed_def)
    then have "keyed ?k (connections ?end)"
      by (rule keyed_fold_files)
    with c show "source c = fst ?k \<and> dest c = snd ?k"
      by (simp add: keyed_def)
  qed
  with c have "\<exists>c. map_of (connections (parse_logs e listing st)) ?k = Some c
      \<and> (map_of (connections st) ?k = None
           \<longrightarrow> source c = parse_node_id_from_filename (fname f) \<and> dest c = b)"
    by (simp add: connections_parse_logs assms(1))
  with unresolved created show ?thesis
    by (simp only: parse_logs_checked_eq simp_thms)
qed

text \<open>
  The theorem at two passes over the logs of A and B with the log of A listed first: the
  first pass reads the peer-connected line of A before B is known and creates no record,
  the second pass creates the record (A, B). And at one pass in which the log of B,
  listed first, gives \<^verbatim>\<open>addr-B2\<close> and then \<^verbatim>\<open>addr-B\<close>: the record is created
  in that pass.
\<close>

theorem peer_record_when_owner_stored_witness:
  "connections late_owner_store = []
 \<and> address_of late_owner_store ''B'' = Some ''addr-B''
 \<and> match_line (log_line ''Connected to peer: addr-B'') = PeerConnected ''addr-B''
 \<and> advertisers ''addr-B'' (opened A_peer_log (empty_store :: unit store)) = []
 \<and> connections (process_line (env_at 100) ''A'' (log_line ''Connected to peer: addr-B'')
      (opened A_peer_log empty_store)) = []
 \<and> parse_logs_checked (env_at 102) late_owner_listing late_owner_store
     = Inr (parse_logs (env_at 102) late_owner_listing late_owner_store)
 \<and> map_of (connections (parse_logs (env_at 102) late_owner_listing late_owner_store))
      (''A'', ''B'') = Some (Connection ''A'' ''B'')
 \<and> address_after (lines_before ''B'' [B_back_log] A_peer_log [])
      (address_of (empty_store :: unit store) ''B'') = Some ''addr-B''
 \<and> (\<exists>c. map_of (connections (parse_logs (env_at 100) [B_back_log, A_peer_log]
      (empty_store :: unit store))) (''A'', ''B'') = Some c \<and> source c = ''A'' \<and> dest c = ''B'')"
proof -
  have c: "connections late_owner_store = []"
    by code_simp
  have a: "address_of late_owner_store ''B'' = Some ''addr-B''"
    by code_simp
  have f: "filter (\<lambda>g. endswith ''.log'' (fname g)) late_owner_listing
             = [] @ A_peer_log # [B_log]"
    by code_simp
  have l: "flines A_peer_log = [] @ log_line ''Connected to peer: addr-B'' # []"
    by (simp add: A_peer_log_def log_file_def)
  have m: "match_line (log_line ''Connected to peer: addr-B'') = PeerConnected ''addr-B''"
    by code_simp
  have o: "address_after (lines_before ''B'' [] A_peer_log [])
             (address_of late_owner_store ''B'') = Some ''addr-B''"
    by code_simp
  have z: "advertisers ''addr-B'' (opened A_peer_log (empty_store :: unit store)) = []"
    by code_simp
  have k: "''A'' \<in> set (node_ids (opened A_peer_log (empty_store :: unit store)))"
    by code_simp
  have e: "connections (opened A_peer_log (empty_store :: unit store)) = []"
    by (simp add: empty_store_def)
  have r: "map_of (connections (parse_logs (env_at 102) late_owner_listing late_owner_store))
             (''A'', ''B'') = Some (Connection ''A'' ''B'')"
    by code_simp
  note first_case = peer_record_when_owner_stored [OF f l m o, where e = "env_at 102"
      and e0 = "env_at 100" and nid = "''A''"
      and ?st0.0 = "opened A_peer_log (empty_store :: unit store)"]
  have unresolved: "connections (process_line (env_at 100) ''A''
      (log_line ''Connected to peer: addr-B'') (opened A_peer_log empty_store)) = []"
    using first_case [THEN conjunct1] z k e by simp
  have raises: "parse_logs_checked (env_at 102) late_owner_listing late_owner_store
      = Inr (parse_logs (env_at 102) late_owner_listing late_owner_store)"
    using first_case [THEN conjunct2, THEN conjunct2, THEN conjunct1] .
  have f2: "filter (\<lambda>g. endswith ''.log'' (fname g)) [B_back_log, A_peer_log]
              = [B_back_log] @ A_peer_log # []"
    by code_simp
  have o2: "address_after (lines_before ''B'' [B_back_log] A_peer_log [])
              (address_of (empty_store :: unit store) ''B'') = Some ''addr-B''"
    by code_simp
  have i: "parse_node_id_from_filename (fname A_peer_log) = ''A''"
    by code_simp
  have n: "map_of (connections (empty_store :: unit store)) (''A'', ''B'') = None"
    by (simp add: empty_store_def)
  note second_case = peer_record_when_owner_stored [OF f2 l m o2, where e = "env_at 100"
      and e0 = "env_at 100" and nid = "''A''"
      and ?st0.0 = "opened A_peer_log (empty_store :: unit store)"]
  have same_pass: "\<exists>c. map_of (connections (parse_logs (env_at 100) [B_back_log, A_peer_log]
      (empty_store :: unit store))) (''A'', ''B'') = Some c \<and> source c = ''A'' \<and> dest c = ''B''"
    using second_case [THEN conjunct2, THEN conjunct2, THEN conjunct2] n unfolding i by blast
  from c a m z unresolved raises r o2 same_pass show ?thesis
    by blast
qed

text \<open>
  C9 as stated fails: the log of B gives \<^verbatim>\<open>addr-B\<close> and then \<^verbatim>\<open>addr-B2\<close>, so
  the node-initialized line with \<^verbatim>\<open>addr-B\<close> is read in every pass, and yet no pass
  creates the record (A, B) for the line of A that connects to \<^verbatim>\<open>addr-B\<close>, in
  either order of the two files.
\<close>

theorem owner_moved_counterexample:
  "conn_keys (passes [(env_at 100, [A_peer_log, B_moved_log]),
      (env_at 102, [A_peer_log, B_moved_log]), (env_at 104, [A_peer_log, B_moved_log])]
      empty_store) = []
 \<and> conn_keys (passes [(env_at 100, [B_moved_log, A_peer_log]),
      (env_at 102, [B_moved_log, A_peer_log]), (env_at 104, [B_moved_log, A_peer_log])]
      empty_store) = []
 \<and> address_of (passes [(env_at 100, [A_peer_log, B_moved_log])] empty_store) ''B''
     = Some ''addr-B2''
 \<and> match_line (log_line ''Node initialized with overlay address: addr-B'')
     = NodeInitialized ''addr-B''
 \<and> match_line (log_line ''Connected to peer: addr-B'') = PeerConnected ''addr-B''"
  by code_simp

text \<open>
  C10, as amended. A peer-connected (tunnel-created) line processed for a known node
  leaves the nodes, hence every peer set and tunnel set, and the connection keys
  unchanged when its address is already in the peer set (tunnel set) and a record exists
  for the node and every advertiser of the address; a record for one of the pairs is not
  enough, since the line adds the pair of every advertiser that has none yet, and only
  those. Processing the line twice in a row gives the nodes and keys that processing it
  once gives. A record that exists differs afterwards in its tunnel type at most, and
  the connection keys stay distinct through every line, every pass and every sequence of
  passes from the empty store: one record for each ordered pair.
\<close>

theorem reprocessing_is_idempotent:
  assumes "nid \<in> set (node_ids st)"
    and "match_line line = PeerConnected a \<or> match_line line = TunnelCreated a t"
  shows "(((match_line line = PeerConnected a \<and> a \<in> peers_of st nid)
           \<or> (match_line line = TunnelCreated a t \<and> a \<in> tunnels_of st nid))
          \<and> (\<forall>k \<in> set (advertisers a st). (nid, k) \<in> set (conn_keys st)) \<longrightarrow>
            nodes (process_line e nid line st) = nodes st
          \<and> conn_keys (process_line e nid line st) = conn_keys st)
       \<and> set (conn_keys (process_line e nid line st))
           = set (conn_keys st) \<union> {(nid, k) |k. k \<in> set (advertisers a st)}
       \<and> nodes (process_line e nid line (process_line e nid line st))
           = nodes (process_line e nid line st)
       \<and> conn_keys (process_line e nid line (process_line e nid line st))
           = conn_keys (process_line e nid line st)
       \<and> (\<forall>k c. map_of (connections st) k = Some c \<longrightarrow>
            (\<exists>tt. map_of (connections (process_line e nid line st)) k
                     = Some (c\<lparr>tunnel_type := tt\<rparr>)))
       \<and> (distinct (conn_keys st) \<longrightarrow>
            distinct (conn_keys (process_line e' nid' line' st))
          \<and> distinct (conn_keys (parse_logs e' listing st)))
       \<and> distinct (conn_keys (passes ps (empty_store :: 'd store)))"
proof -
  have one: "distinct (conn_keys st) \<longrightarrow>
      distinct (conn_keys (process_line e' nid' line' st))
      \<and> distinct (conn_keys (parse_logs e' listing st))"
    by (simp add: distinct_process_line distinct_parse_logs)
  have ever: "distinct (conn_keys (passes ps (empty_store :: 'd store)))"
    by (rule distinct_passes) (simp add: conn_keys_def empty_store_def)
  from assms(2) have "(((match_line line = PeerConnected a \<and> a \<in> peers_of st nid)
           \<or> (match_line line = TunnelCreated a t \<and> a \<in> tunnels_of st nid))
          \<and> (\<forall>k \<in> set (advertisers a st). (nid, k) \<in> set (conn_keys st)) \<longrightarrow>
            nodes (process_line e nid line st) = nodes st
          \<and> conn_keys (process_line e nid line st) = conn_keys st)
       \<and> set (conn_keys (process_line e nid line st))
           = set (conn_keys st) \<union> {(nid, k) |k. k \<in> set (advertisers a st)}
       \<and> nodes (process_line e nid line (process_line e nid line st))
           = nodes (process_line e nid line st)
       \<and> conn_keys (process_line e nid line (process_line e nid line st))
           = conn_keys (process_line e nid line st)
       \<and> (\<forall>k c. map_of (connections st) k = Some c \<longrightarrow>
            (\<exists>tt. map_of (connections (process_line e nid line st)) k
                     = Some (c\<lparr>tunnel_type := tt\<rparr>)))"
  proof
    assume m: "match_line line = PeerConnected a"
    have pl: "\<And>s. process_line e nid line s = peer_connected nid a s"
      by (simp add: process_line_match m)
    have keys: "set (conn_keys (peer_connected nid a st))
                  = set (conn_keys st) \<union> {(nid, k) |k. k \<in> set (advertisers a st)}"
      by (rule conn_keys_peer_connected)
    have again: "peer_connected nid a (peer_connected nid a st) = peer_connected nid a st"
    proof (rule peer_connected_again)
      show "nid \<in> set (node_ids (peer_connected nid a st))"
        using assms(1) by simp
      show "a \<in> peers_of (peer_connected nid a st) nid"
        using assms(1) by (simp add: peers_of_peer_connected)
      show "\<forall>k \<in> set (advertisers a (peer_connected nid a st)).
              (nid, k) \<in> set (conn_keys (peer_connected nid a st))"
        unfolding keys by simp
    qed
    have cond: "a \<in> peers_of st nid
        \<and> (\<forall>k \<in> set (advertisers a st). (nid, k) \<in> set (conn_keys st)) \<longrightarrow>
        nodes (peer_connected nid a st) = nodes st
        \<and> conn_keys (peer_connected nid a st) = conn_keys st"
      using peer_connected_again [OF assms(1), of a] by auto
    have only: "\<forall>k c. map_of (connections st) k = Some c \<longrightarrow>
        (\<exists>tt. map_of (connections (peer_connected nid a st)) k = Some (c\<lparr>tunnel_type := tt\<rparr>))"
      using tunnel_only_peer_connected tunnel_type_same by metis
    from m cond keys again only show ?thesis
      unfolding pl by auto
  next
    assume m: "match_line line = TunnelCreated a t"
    have pl: "\<And>s. process_line e nid line s = tunnel_created nid a t s"
      by (simp add: process_line_match m)
    have keys: "set (conn_keys (tunnel_created nid a t st))
                  = set (conn_keys st) \<union> {(nid, k) |k. k \<in> set (advertisers a st)}"
      by (rule conn_keys_tunnel_created)
    have again: "nodes (tunnel_created nid a t (tunnel_created nid a t st))
                   = nodes (tunnel_created nid a t st)
        \<and> conn_keys (tunnel_created nid a t (tunnel_created nid a t st))
            = conn_keys (tunnel_created nid a t st)"
    proof (rule tunnel_created_again)
      show "nid \<in> set (node_ids (tunnel_created nid a t st))"
        using assms(1) by simp
      show "a \<in> tunnels_of (tunnel_created nid a t st) nid"
        using assms(1) by (simp add: tunnels_of_tunnel_created)
      show "\<forall>k \<in> set (advertisers a (tunnel_created nid a t st)).
              (nid, k) \<in> set (conn_keys (tunnel_created nid a t st))"
        unfolding keys by simp
    qed
    have cond: "a \<in> tunnels_of st nid
        \<and> (\<forall>k \<in> set (advertisers a st). (nid, k) \<in> set (conn_keys st)) \<longrightarrow>
        nodes (tunnel_created nid a t st) = nodes st
        \<and> conn_keys (tunnel_created nid a t st) = conn_keys st"
      using tunnel_created_again [OF assms(1), of a t] by auto
    have only: "\<forall>k c. map_of (connections st) k = Some c \<longrightarrow>
        (\<exists>tt. map_of (connections (tunnel_created nid a t st)) k
                 = Some (c\<lparr>tunnel_type := tt\<rparr>))"
      using tunnel_only_tunnel_created by blast
    from m cond keys again only show ?thesis
      unfolding pl by auto
  qed
  with one ever show ?thesis by blast
qed

text \<open>
  The theorem at the second reading of the tunnel line of A, and at the second reading of
  a peer-connected line of A after a second node has taken the address.
\<close>

theorem reprocessing_is_idempotent_witness:
  "match_line (log_line ''Created tunnel to addr-B using wireguard'')
     = TunnelCreated ''addr-B'' ''wireguard''
 \<and> tunnels_of tunnel_store ''A'' = {''addr-B''}
 \<and> advertisers ''addr-B'' tunnel_store = [''B'']
 \<and> conn_keys tunnel_store = [(''A'', ''B'')]
 \<and> nodes (process_line (env_at 102) ''A''
      (log_line ''Created tunnel to addr-B using wireguard'') tunnel_store) = nodes tunnel_store
 \<and> conn_keys (process_line (env_at 102) ''A''
      (log_line ''Created tunnel to addr-B using wireguard'') tunnel_store) = [(''A'', ''B'')]
 \<and> distinct (conn_keys (parse_logs (env_at 102) tunnel_listing tunnel_store))
 \<and> set (conn_keys (process_line (env_at 102) ''A'' (log_line ''Connected to peer: addr-X'')
      late_twin_store)) = {(''A'', ''B''), (''A'', ''C'')}"
proof -
  have k: "''A'' \<in> set (node_ids tunnel_store)"
    by code_simp
  have m: "match_line (log_line ''Created tunnel to addr-B using wireguard'')
             = TunnelCreated ''addr-B'' ''wireguard''"
    by code_simp
  have t: "tunnels_of tunnel_store ''A'' = {''addr-B''}"
    by code_simp
  have c: "conn_keys tunnel_store = [(''A'', ''B'')]"
    by code_simp
  have a: "advertisers ''addr-B'' tunnel_store = [''B'']"
    by code_simp
  have h: "match_line (log_line ''Created tunnel to addr-B using wireguard'')
             = PeerConnected ''addr-B''
         \<or> match_line (log_line ''Created tunnel to addr-B using wireguard'')
             = TunnelCreated ''addr-B'' ''wireguard''"
    using m by simp
  have k2: "''A'' \<in> set (node_ids late_twin_store)"
    by code_simp
  have m2: "match_line (log_line ''Connected to peer: addr-X'') = PeerConnected ''addr-X''"
    by code_simp
  have h2: "match_line (log_line ''Connected to peer: addr-X'') = PeerConnected ''addr-X''
          \<or> match_line (log_line ''Connected to peer: addr-X'') = TunnelCreated ''addr-X'' []"
    using m2 by simp
  have c2: "conn_keys late_twin_store = [(''A'', ''B'')]"
    by code_simp
  have a2: "advertisers ''addr-X'' late_twin_store = [''B'', ''C'']"
    by code_simp
  note tunnel = reprocessing_is_idempotent [OF k h, where e = "env_at 102"
      and e' = "env_at 102" and nid' = "''A''" and line' = "[]" and listing = tunnel_listing
      and ps = "[] :: (unit env \<times> logfile list) list"]
  have cond: "(match_line (log_line ''Created tunnel to addr-B using wireguard'')
                 = PeerConnected ''addr-B'' \<and> ''addr-B'' \<in> peers_of tunnel_store ''A''
             \<or> match_line (log_line ''Created tunnel to addr-B using wireguard'')
                 = TunnelCreated ''addr-B'' ''wireguard''
               \<and> ''addr-B'' \<in> tunnels_of tunnel_store ''A'')
           \<and> (\<forall>k \<in> set (advertisers ''addr-B'' tunnel_store).
                 (''A'', k) \<in> set (conn_keys tunnel_store))"
    by (simp add: m t a c)
  from tunnel [THEN conjunct1, rule_format, OF cond] c
  have first: "nodes (process_line (env_at 102) ''A''
      (log_line ''Created tunnel to addr-B using wireguard'') tunnel_store) = nodes tunnel_store
    \<and> conn_keys (process_line (env_at 102) ''A''
      (log_line ''Created tunnel to addr-B using wireguard'') tunnel_store) = [(''A'', ''B'')]"
    by simp
  have d: "distinct (conn_keys tunnel_store)"
    by (simp add: c)
  from tunnel [THEN conjunct2, THEN conjunct2, THEN conjunct2, THEN conjunct2,
      THEN conjunct2, THEN conjunct1, rule_format, OF d]
  have pass: "distinct (conn_keys (parse_logs (env_at 102) tunnel_listing tunnel_store))"
    by simp
  note twin = reprocessing_is_idempotent [OF k2 h2, where e = "env_at 102"
      and e' = "env_at 102" and nid' = "''A''" and line' = "[]" and listing = "[]"
      and ps = "[] :: (unit env \<times> logfile list) list"]
  from twin [THEN conjunct2, THEN conjunct1]
  have second: "set (conn_keys (process_line (env_at 102) ''A''
      (log_line ''Connected to peer: addr-X'') late_twin_store))
        = {(''A'', ''B''), (''A'', ''C'')}"
    unfolding c2 a2 by auto
  from first pass second m t a c show ?thesis by simp
qed

text \<open>
  C10 as stated fails: C logs the address after A has connected to it, so after one pass
  the address is in the peer set of A and the record (A, B) exists, and reading the same
  line of A again adds the key (A, C).
\<close>

theorem late_twin_counterexample:
  "match_line (log_line ''Connected to peer: addr-X'') = PeerConnected ''addr-X''
 \<and> ''addr-X'' \<in> peers_of late_twin_store ''A''
 \<and> conn_keys late_twin_store = [(''A'', ''B'')]
 \<and> conn_keys (process_line (env_at 102) ''A'' (log_line ''Connected to peer: addr-X'')
      late_twin_store) = [(''A'', ''B''), (''A'', ''C'')]"
  by code_simp

end
